(* ===== verification/Prelude.thy ===== *)
theory Prelude
  imports Main "HOL-Library.Word" "HOL-Library.AList" "HOL-Library.Sublist"
begin

text \<open>
  Shared vocabulary of the rjson development.  The program stores JSON
  integers as \<open>int64_t\<close>, doubles as IEEE-754 binary64 values and strings
  as \<open>std::string\<close> byte sequences (possibly with embedded NUL); the model
  keeps these widths: an \<open>int64\<close> is a \<open>64 word\<close> read with \<open>sint\<close>, a
  double is kept as its 64-bit pattern (the program never computes with it,
  it only stores and forwards it), and a byte string is a \<open>string\<close>
  (a list of 8-bit \<open>char\<close>s).  An \<open>std::unordered_map\<close> is an
  association list whose keys are kept distinct by the operations that
  build it.  The lemmas below are the generic facts on association lists
  that the component theories share.
\<close>

type_synonym int64 = "64 word"
type_synonym f64 = "64 word"
type_synonym bytes = string

named_theorems alist_simps "generic association-list facts used by the builder proofs"

lemma distinct_keys_snoc [alist_simps]:
  "distinct (map fst (ms @ [(k, v)])) \<longleftrightarrow> distinct (map fst ms) \<and> map_of ms k = None"
  by (auto simp: map_of_eq_None_iff)

lemma map_of_snoc [alist_simps]:
  "map_of (ms @ [(k, v)]) k' = (case map_of ms k' of None \<Rightarrow> (if k' = k then Some v else None) | Some w \<Rightarrow> Some w)"
  by (simp add: map_add_def split: option.splits)

lemma map_entry_const_id [alist_simps]:
  "map_of ms k = Some c \<Longrightarrow> AList.map_entry k (\<lambda>_. c) ms = ms"
  by (induction ms) (auto split: if_splits)

lemma map_entry_comp [alist_simps]:
  "AList.map_entry k f (AList.map_entry k g ms) = AList.map_entry k (f \<circ> g) ms"
  by (induction ms) auto

lemma map_of_map_entry_same [alist_simps]:
  "map_of (AList.map_entry k f ms) k = map_option f (map_of ms k)"
  by (simp add: map_of_map_entry split: option.splits)

lemma distinct_keys_map_entry [alist_simps]:
  "distinct (map fst (AList.map_entry k f ms)) \<longleftrightarrow> distinct (map fst ms)"
proof -
  have "map fst (AList.map_entry k f ms) = map fst ms"
    by (induction ms) auto
  then show ?thesis by simp
qed

lemma set_map_entry_values [alist_simps]:
  "(k', c') \<in> set (AList.map_entry k f ms) \<Longrightarrow>
     (k', c') \<in> set ms \<or> (\<exists>c. k' = k \<and> (k, c) \<in> set ms \<and> c' = f c)"
  by (induction ms) (auto split: if_splits)

lemma strict_prefix_same_append [simp]:
  "strict_prefix (xs @ ys) (xs @ zs) \<longleftrightarrow> strict_prefix ys zs"
  by (induction xs) auto

lemma strict_prefix_append_right:
  "strict_prefix xs ys \<Longrightarrow> strict_prefix xs (ys @ zs)"
  by (metis prefix_order.less_le_trans prefix_append prefix_order.order_refl)

end
