(* ===== verification/Json_Value.thy ===== *)
theory Json_Value
  imports Prelude
begin

text \<open>
  The value model of \<open>src/program.cpp\<close>: \<open>enum json_type\<close> and the tagged
  union \<open>struct json_data\<close>.  The union with its hand-written placement
  constructors and destructor becomes a datatype: exactly one payload is live,
  and it is the one named by the tag (\<open>type_of\<close>).  A map member list keeps
  the members in the order \<open>emplace\<close> added them; the order in which the
  program's \<open>std::unordered_map\<close> enumerates them is a permutation of it
  that the program does not control.

  The builder reaches into the tree through raw \<open>json_data*\<close> pointers.  The
  program's containers are node-stable (\<open>std::list\<close>, \<open>std::unordered_map\<close>),
  so such a pointer denotes one fixed position of the tree; the model writes a
  pointer as the path from the root to that position (\<open>path\<close>), a read
  through it as \<open>get_at\<close> and a write through it as \<open>upd_at\<close>.
\<close>

datatype json_type =
    json_type_null
  | json_type_boolean
  | json_type_integer
  | json_type_real
  | json_type_string
  | json_type_map
  | json_type_array

datatype json_data =
    JNull
  | JBoolean bool
  | JInteger int64
  | JReal f64
  | JString bytes
  | JMap "(bytes \<times> json_data) list"
  | JArray "json_data list"

text \<open>The tag field \<open>type\<close> of \<open>json_data\<close>.\<close>

fun type_of :: "json_data \<Rightarrow> json_type" where
  "type_of JNull = json_type_null"
| "type_of (JBoolean b) = json_type_boolean"
| "type_of (JInteger i) = json_type_integer"
| "type_of (JReal r) = json_type_real"
| "type_of (JString s) = json_type_string"
| "type_of (JMap ms) = json_type_map"
| "type_of (JArray xs) = json_type_array"

text \<open>The constructor \<open>json_data(json_type t)\<close>: the tag with a default payload.\<close>

fun json_data_of_type :: "json_type \<Rightarrow> json_data" where
  "json_data_of_type json_type_null = JNull"
| "json_data_of_type json_type_boolean = JBoolean False"
| "json_data_of_type json_type_integer = JInteger 0"
| "json_data_of_type json_type_real = JReal 0"
| "json_data_of_type json_type_string = JString []"
| "json_data_of_type json_type_map = JMap []"
| "json_data_of_type json_type_array = JArray []"

text \<open>
  Nesting depth (a scalar has depth 0, a container one more than its deepest
  child) and well-formedness: every map has pairwise distinct keys, as an
  \<open>std::unordered_map\<close> has.  The mutual recursion over a value, its member
  list and its element list gives the structural induction rule
  \<open>json_induct\<close> used throughout.
\<close>

fun json_depth :: "json_data \<Rightarrow> nat"
and members_depth :: "(bytes \<times> json_data) list \<Rightarrow> nat"
and elems_depth :: "json_data list \<Rightarrow> nat" where
  "json_depth JNull = 0"
| "json_depth (JBoolean b) = 0"
| "json_depth (JInteger i) = 0"
| "json_depth (JReal r) = 0"
| "json_depth (JString s) = 0"
| "json_depth (JMap ms) = Suc (members_depth ms)"
| "json_depth (JArray xs) = Suc (elems_depth xs)"
| "members_depth [] = 0"
| "members_depth ((k, v) # ms) = max (json_depth v) (members_depth ms)"
| "elems_depth [] = 0"
| "elems_depth (x # xs) = max (json_depth x) (elems_depth xs)"

lemmas json_induct = json_depth_members_depth_elems_depth.induct
  [case_names Null Boolean Integer Real String Map Array MNil MCons ENil ECons]

fun wf_json :: "json_data \<Rightarrow> bool"
and wf_members :: "(bytes \<times> json_data) list \<Rightarrow> bool"
and wf_elems :: "json_data list \<Rightarrow> bool" where
  "wf_json (JMap ms) = (distinct (map fst ms) \<and> wf_members ms)"
| "wf_json (JArray xs) = wf_elems xs"
| "wf_json JNull = True"
| "wf_json (JBoolean b) = True"
| "wf_json (JInteger i) = True"
| "wf_json (JReal r) = True"
| "wf_json (JString s) = True"
| "wf_members [] = True"
| "wf_members ((k, v) # ms) = (wf_json v \<and> wf_members ms)"
| "wf_elems [] = True"
| "wf_elems (x # xs) = (wf_json x \<and> wf_elems xs)"

subsection \<open>Positions in a tree: the model of \<open>json_data*\<close>\<close>

datatype sel = SIdx nat | SKey bytes

type_synonym path = "sel list"

fun child :: "sel \<Rightarrow> json_data \<Rightarrow> json_data option" where
  "child (SIdx i) (JArray xs) = (if i < length xs then Some (xs ! i) else None)"
| "child (SKey k) (JMap ms) = map_of ms k"
| "child s v = None"

fun upd_child :: "sel \<Rightarrow> (json_data \<Rightarrow> json_data) \<Rightarrow> json_data \<Rightarrow> json_data" where
  "upd_child (SIdx i) g (JArray xs) = JArray (if i < length xs then xs[i := g (xs ! i)] else xs)"
| "upd_child (SKey k) g (JMap ms) = JMap (AList.map_entry k g ms)"
| "upd_child s g v = v"

primrec get_at :: "path \<Rightarrow> json_data \<Rightarrow> json_data option" where
  "get_at [] v = Some v"
| "get_at (s # p) v = (case child s v of None \<Rightarrow> None | Some c \<Rightarrow> get_at p c)"

primrec upd_at :: "path \<Rightarrow> (json_data \<Rightarrow> json_data) \<Rightarrow> json_data \<Rightarrow> json_data" where
  "upd_at [] f v = f v"
| "upd_at (s # p) f v = upd_child s (upd_at p f) v"

subsection \<open>Facts on values\<close>

lemma upd_at_Nil [simp]: "upd_at [] f = f"
  by (rule ext) simp

lemma wf_members_iff: "wf_members ms \<longleftrightarrow> (\<forall>(k, v) \<in> set ms. wf_json v)"
  by (induction ms) auto

lemma wf_elems_iff: "wf_elems xs \<longleftrightarrow> (\<forall>x \<in> set xs. wf_json x)"
  by (induction xs) auto

lemma type_of_json_data_of_type [simp]: "type_of (json_data_of_type t) = t"
  by (cases t) simp_all

lemma wf_json_data_of_type [simp]: "wf_json (json_data_of_type t)"
  by (cases t) simp_all

subsection \<open>Reading and writing through a position\<close>

lemma child_upd_child [simp]: "child s (upd_child s g v) = map_option g (child s v)"
  by (cases "(s, g, v)" rule: upd_child.cases) (simp_all add: map_of_map_entry_same)

lemma child_upd_child_other:
  "s \<noteq> s' \<Longrightarrow> child s' (upd_child s g v) = child s' v"
  by (cases "(s, g, v)" rule: upd_child.cases; cases s') (auto simp: map_of_map_entry)

lemma upd_child_id:
  "child s v = Some c \<Longrightarrow> g c = c \<Longrightarrow> upd_child s g v = v"
proof (cases "(s, g, v)" rule: upd_child.cases)
  case (2 k g' ms)
  moreover have "map_of ms k = Some c \<Longrightarrow> g c = c \<Longrightarrow> AList.map_entry k g ms = ms"
    by (induction ms) (auto split: if_splits)
  ultimately show "child s v = Some c \<Longrightarrow> g c = c \<Longrightarrow> upd_child s g v = v"
    by simp
qed (auto split: if_splits)

lemma upd_child_comp: "upd_child s f (upd_child s g v) = upd_child s (f \<circ> g) v"
  by (cases "(s, g, v)" rule: upd_child.cases) (simp_all add: map_entry_comp)

lemma get_at_append:
  "get_at (p @ q) v = (case get_at p v of None \<Rightarrow> None | Some c \<Rightarrow> get_at q c)"
  by (induction p arbitrary: v) (simp_all split: option.splits)

lemma upd_at_append: "upd_at (p @ q) f = upd_at p (upd_at q f)"
proof (induction p)
  case Nil
  show ?case by (rule ext) simp
next
  case (Cons s p)
  show ?case by (rule ext) (simp add: Cons.IH)
qed

lemma get_at_upd_at_same:
  "get_at p v = Some c \<Longrightarrow> get_at p (upd_at p f v) = Some (f c)"
  by (induction p arbitrary: v) (auto split: option.splits)

lemma get_at_upd_at_prefix:
  "get_at p v = Some c \<Longrightarrow> get_at p (upd_at (p @ q) f v) = Some (upd_at q f c)"
  by (simp add: upd_at_append get_at_upd_at_same)

lemma upd_at_id: "get_at p v = Some c \<Longrightarrow> f c = c \<Longrightarrow> upd_at p f v = v"
proof (induction p arbitrary: v)
  case Nil
  then show ?case by simp
next
  case (Cons s p)
  then obtain c' where c': "child s v = Some c'" and g: "get_at p c' = Some c"
    by (auto split: option.splits)
  with Cons.IH Cons.prems(2) have "upd_at p f c' = c'" by blast
  with c' show ?case by (simp add: upd_child_id)
qed

lemma upd_at_comp: "upd_at p f (upd_at p g v) = upd_at p (f \<circ> g) v"
proof (induction p arbitrary: v)
  case Nil
  then show ?case by simp
next
  case (Cons s p)
  have "upd_at p f \<circ> upd_at p g = upd_at p (f \<circ> g)"
    by (rule ext) (simp add: Cons.IH comp_def)
  then show ?case by (simp add: upd_child_comp comp_def)
qed

lemma wf_child: "wf_json v \<Longrightarrow> child s v = Some c \<Longrightarrow> wf_json c"
  by (cases "(s, v)" rule: child.cases)
     (auto simp: wf_members_iff wf_elems_iff split: if_splits dest!: map_of_SomeD)

lemma wf_get_at: "wf_json v \<Longrightarrow> get_at p v = Some c \<Longrightarrow> wf_json c"
  by (induction p arbitrary: v) (auto split: option.splits dest: wf_child)

lemma wf_upd_child:
  assumes "wf_json v" "child s v = Some c" "wf_json (g c)"
  shows "wf_json (upd_child s g v)"
  using assms
proof (cases "(s, g, v)" rule: upd_child.cases)
  case (1 i g' xs)
  with assms show ?thesis
    by (auto simp: wf_elems_iff split: if_splits dest!: set_update_subset_insert [THEN subsetD])
next
  case (2 k g' ms)
  with assms show ?thesis
    by (auto simp: wf_members_iff distinct_keys_map_entry map_of_eq_Some_iff
             dest!: set_map_entry_values dest: eq_key_imp_eq_value)
qed simp_all

lemma wf_upd_at:
  "wf_json v \<Longrightarrow> get_at p v = Some c \<Longrightarrow> wf_json (f c) \<Longrightarrow> wf_json (upd_at p f v)"
proof (induction p arbitrary: v)
  case Nil
  then show ?case by simp
next
  case (Cons s p)
  then obtain c' where c': "child s v = Some c'" and g: "get_at p c' = Some c"
    by (auto split: option.splits)
  have "wf_json c'" using Cons.prems(1) c' by (rule wf_child)
  with Cons.IH g Cons.prems(3) have "wf_json (upd_at p f c')" by blast
  with Cons.prems(1) c' show ?case by (simp add: wf_upd_child)
qed

end
