(* ===== verification/Events.thy ===== *)
theory Events
  imports Json_Value
begin

text \<open>
  The interface between the yajl parser and the builder, and between the
  serializer and the yajl generator: the structural events of a JSON text.
  The parser reports them through the callback table \<open>reader_cb\<close> of
  \<open>src/program.cpp\<close> (one callback per event kind; the \<open>yajl_number\<close> slot is
  \<open>nullptr\<close>, so numbers arrive as integers or doubles); the generator's
  output, read back by a parser, is the same kind of stream.  \<open>events_of\<close> is
  the stream of a document in document order, as yajl reports it.
\<close>

datatype yajl_event =
    EvNull
  | EvBoolean bool
  | EvInteger int64
  | EvDouble f64
  | EvString bytes
  | EvStartMap
  | EvMapKey bytes
  | EvEndMap
  | EvStartArray
  | EvEndArray

text \<open>
  The event stream the parser delivers for a document, one event per token, in
  document order.
\<close>

fun events_of :: "json_data \<Rightarrow> yajl_event list"
and events_members :: "(bytes \<times> json_data) list \<Rightarrow> yajl_event list"
and events_elems :: "json_data list \<Rightarrow> yajl_event list" where
  "events_of JNull = [EvNull]"
| "events_of (JBoolean b) = [EvBoolean b]"
| "events_of (JInteger i) = [EvInteger i]"
| "events_of (JReal r) = [EvDouble r]"
| "events_of (JString s) = [EvString s]"
| "events_of (JMap ms) = EvStartMap # events_members ms @ [EvEndMap]"
| "events_of (JArray xs) = EvStartArray # events_elems xs @ [EvEndArray]"
| "events_members [] = []"
| "events_members ((k, v) # ms) = EvMapKey k # events_of v @ events_members ms"
| "events_elems [] = []"
| "events_elems (x # xs) = events_of x @ events_elems xs"

primrec nest :: "nat \<Rightarrow> json_data" where
  "nest 0 = JArray []"
| "nest (Suc n) = JArray [nest n]"

lemma events_of_nest:
  "events_of (nest n) = replicate (Suc n) EvStartArray @ replicate (Suc n) EvEndArray"
  by (induction n) (simp_all add: replicate_append_same)

lemma wf_nest: "wf_json (nest n)"
  by (induction n) simp_all

end
