(* ===== verification/Builder.thy ===== *)
theory Builder
  imports Events
begin

text \<open>
  The incremental builder of \<open>src/program.cpp\<close>: \<open>struct json_data_state\<close>
  with its \<open>insert\<close> template, and the ten callbacks of the
  \<open>yajl_callbacks reader_cb\<close> table in \<open>main\<close>.  The yajl parser, which is
  not part of the program, calls one callback per structural event and stops
  at the first callback that returns 0; it is modelled by \<open>feed\<close> over a list
  of events.  The state is the record below: \<open>stack\<close> holds the pointers
  (paths) of the open containers, head first; \<open>tempKey\<close> the last map key;
  \<open>root\<close> the tree (\<open>None\<close> for \<open>nullptr\<close>).
\<close>

record json_data_state =
  stack :: "path list"
  tempKey :: bytes
  root :: "json_data option"

text \<open>
  Results of a callback: \<open>Inr\<close> the new state (the callback returned 1),
  \<open>Inl ClientCanceled\<close> (it returned 0, after which yajl stops with
  \<open>yajl_status_client_canceled\<close>), \<open>Inl UndefinedBehaviour\<close> (the C++ code
  would have undefined behaviour: \<open>pop\<close> of an empty \<open>std::stack\<close>, or a read
  through a pointer that does not point into the tree).
\<close>

datatype build_error = ClientCanceled | UndefinedBehaviour

text \<open>\<open>std::unordered_map::emplace\<close>: inserts only when the key is absent.\<close>

definition emplace :: "bytes \<Rightarrow> json_data \<Rightarrow> (bytes \<times> json_data) list \<Rightarrow> (bytes \<times> json_data) list" where
  "emplace k v ms = (if map_of ms k = None then ms @ [(k, v)] else ms)"

text \<open>
  \<open>json_data_state::insert\<close>: the constructed value \<open>v\<close> becomes the root if
  there is none; otherwise it goes into the container on top of the stack, and
  the pointer to the stored value is returned (for a map, the value stored under
  \<open>tempKey\<close>, which is the old one when the key was present).
\<close>

definition insert_json :: "json_data \<Rightarrow> json_data_state \<Rightarrow> build_error + json_data_state \<times> path" where
  "insert_json v st =
     (case root st of
        None \<Rightarrow> Inr (st\<lparr>root := Some v\<rparr>, [])
      | Some r \<Rightarrow>
          (case stack st of
             [] \<Rightarrow> Inl ClientCanceled
           | p # _ \<Rightarrow>
               (case get_at p r of
                  None \<Rightarrow> Inl UndefinedBehaviour
                | Some (JArray xs) \<Rightarrow>
                    Inr (st\<lparr>root := Some (upd_at p (\<lambda>_. JArray (xs @ [v])) r)\<rparr>,
                         p @ [SIdx (length xs)])
                | Some (JMap ms) \<Rightarrow>
                    Inr (st\<lparr>root := Some (upd_at p (\<lambda>_. JMap (emplace (tempKey st) v ms)) r)\<rparr>,
                         p @ [SKey (tempKey st)])
                | Some _ \<Rightarrow> Inl ClientCanceled)))"

text \<open>The scalar callbacks: \<open>return (int) (state->insert(...) != nullptr)\<close>.\<close>

definition reader_value :: "json_data \<Rightarrow> json_data_state \<Rightarrow> build_error + json_data_state" where
  "reader_value v st = (case insert_json v st of Inl e \<Rightarrow> Inl e | Inr (st', _) \<Rightarrow> Inr st')"

definition reader_null :: "json_data_state \<Rightarrow> build_error + json_data_state" where
  "reader_null st = reader_value (json_data_of_type json_type_null) st"

definition reader_boolean :: "bool \<Rightarrow> json_data_state \<Rightarrow> build_error + json_data_state" where
  "reader_boolean b st = reader_value (JBoolean b) st"

definition reader_integer :: "int64 \<Rightarrow> json_data_state \<Rightarrow> build_error + json_data_state" where
  "reader_integer i st = reader_value (JInteger i) st"

definition reader_double :: "f64 \<Rightarrow> json_data_state \<Rightarrow> build_error + json_data_state" where
  "reader_double r st = reader_value (JReal r) st"

definition reader_string :: "bytes \<Rightarrow> json_data_state \<Rightarrow> build_error + json_data_state" where
  "reader_string s st = reader_value (JString s) st"

text \<open>Start of a container: insert an empty one and push the pointer to it.\<close>

definition reader_start :: "json_type \<Rightarrow> json_data_state \<Rightarrow> build_error + json_data_state" where
  "reader_start t st =
     (case insert_json (json_data_of_type t) st of
        Inl e \<Rightarrow> Inl e
      | Inr (st', p) \<Rightarrow> Inr (st'\<lparr>stack := p # stack st'\<rparr>))"

definition reader_start_map :: "json_data_state \<Rightarrow> build_error + json_data_state" where
  "reader_start_map st = reader_start json_type_map st"

definition reader_start_array :: "json_data_state \<Rightarrow> build_error + json_data_state" where
  "reader_start_array st = reader_start json_type_array st"

definition reader_map_key :: "bytes \<Rightarrow> json_data_state \<Rightarrow> build_error + json_data_state" where
  "reader_map_key k st = Inr (st\<lparr>tempKey := k\<rparr>)"

text \<open>End of a container: \<open>state->stack.pop()\<close>, with no check of any kind.\<close>

definition reader_end :: "json_data_state \<Rightarrow> build_error + json_data_state" where
  "reader_end st = (case stack st of [] \<Rightarrow> Inl UndefinedBehaviour | _ # s \<Rightarrow> Inr (st\<lparr>stack := s\<rparr>))"

definition reader_end_map :: "json_data_state \<Rightarrow> build_error + json_data_state" where
  "reader_end_map st = reader_end st"

definition reader_end_array :: "json_data_state \<Rightarrow> build_error + json_data_state" where
  "reader_end_array st = reader_end st"

text \<open>The callback table \<open>reader_cb\<close>: which callback yajl calls for an event.\<close>

fun reader_cb :: "yajl_event \<Rightarrow> json_data_state \<Rightarrow> build_error + json_data_state" where
  "reader_cb EvNull = reader_null"
| "reader_cb (EvBoolean b) = reader_boolean b"
| "reader_cb (EvInteger i) = reader_integer i"
| "reader_cb (EvDouble r) = reader_double r"
| "reader_cb (EvString s) = reader_string s"
| "reader_cb EvStartMap = reader_start_map"
| "reader_cb (EvMapKey k) = reader_map_key k"
| "reader_cb EvEndMap = reader_end_map"
| "reader_cb EvStartArray = reader_start_array"
| "reader_cb EvEndArray = reader_end_array"

text \<open>The parser's driving loop: one callback per event, stop at the first failure.\<close>

fun feed :: "yajl_event list \<Rightarrow> json_data_state \<Rightarrow> build_error + json_data_state" where
  "feed [] st = Inr st"
| "feed (e # es) st = (case reader_cb e st of Inl err \<Rightarrow> Inl err | Inr st' \<Rightarrow> feed es st')"

text \<open>\<open>json_data_state state = {{}, "", nullptr}\<close>, and the tree \<open>main\<close> hands on.\<close>

definition init_state :: json_data_state where
  "init_state = \<lparr>stack = [], tempKey = [], root = None\<rparr>"

definition build :: "yajl_event list \<Rightarrow> build_error + json_data option" where
  "build es = (case feed es init_state of Inl e \<Rightarrow> Inl e | Inr st \<Rightarrow> Inr (root st))"

text \<open>
  Helpers that name what \<open>insert\<close> does to the container on top of the stack:
  the container after the insertion, the position of the new child, and
  whether the container takes a new child (an array always; a map when the
  buffered key is new).
\<close>

fun add_child :: "json_data \<Rightarrow> bytes \<Rightarrow> json_data \<Rightarrow> json_data" where
  "add_child (JArray xs) k v = JArray (xs @ [v])"
| "add_child (JMap ms) k v = JMap (emplace k v ms)"
| "add_child c k v = c"

fun new_sel :: "json_data \<Rightarrow> bytes \<Rightarrow> sel" where
  "new_sel (JArray xs) k = SIdx (length xs)"
| "new_sel c k = SKey k"

fun accepts :: "json_data \<Rightarrow> bytes \<Rightarrow> bool" where
  "accepts (JArray xs) k = True"
| "accepts (JMap ms) k = (map_of ms k = None)"
| "accepts c k = False"

text \<open>
  The builder invariant: the stack pointers form a chain from the root (each
  one the parent of the one above it), every one of them points into the tree,
  and the tree is well-formed.  A pointer may point to a scalar: after a
  duplicate key, \<open>insert\<close> returns the old value, and \<open>reader_start\<close> pushes it.
\<close>

fun stack_chain :: "path list \<Rightarrow> bool" where
  "stack_chain [] = True"
| "stack_chain [p] = (p = [])"
| "stack_chain (p # q # s) = (p \<noteq> [] \<and> butlast p = q \<and> stack_chain (q # s))"

definition builder_inv :: "json_data_state \<Rightarrow> bool" where
  "builder_inv st \<longleftrightarrow>
     (case root st of
        None \<Rightarrow> stack st = []
      | Some r \<Rightarrow> wf_json r \<and> stack_chain (stack st) \<and> (\<forall>p \<in> set (stack st). get_at p r \<noteq> None))"

inductive builder_reachable :: "json_data_state \<Rightarrow> bool" where
  init: "builder_reachable init_state"
| step: "builder_reachable st \<Longrightarrow> reader_cb e st = Inr st' \<Longrightarrow> builder_reachable st'"

text \<open>Two events that are equal, or both end-of-container events of either kind.\<close>

definition same_but_end :: "yajl_event \<Rightarrow> yajl_event \<Rightarrow> bool" where
  "same_but_end e e' \<longleftrightarrow> e = e' \<or> (e \<in> {EvEndMap, EvEndArray} \<and> e' \<in> {EvEndMap, EvEndArray})"

lemmas builder_eval = build_def init_state_def reader_null_def reader_boolean_def
  reader_integer_def reader_double_def reader_string_def reader_value_def
  reader_start_map_def reader_start_array_def reader_start_def insert_json_def
  reader_map_key_def reader_end_map_def reader_end_array_def reader_end_def emplace_def

subsection \<open>The type of the root\<close>

lemma type_upd_child [simp]: "type_of (upd_child s g v) = type_of v"
  by (cases "(s, g, v)" rule: upd_child.cases) simp_all

lemma type_upd_at:
  "get_at p r = Some c \<Longrightarrow> type_of (f c) = type_of c \<Longrightarrow> type_of (upd_at p f r) = type_of r"
  by (cases p) simp_all

lemma insert_json_root_type:
  assumes "insert_json v st = Inr (st', q)" "root st = Some r"
  shows "\<exists>r'. root st' = Some r' \<and> type_of r' = type_of r"
  using assms type_upd_at [of _ r]
  by (auto simp: insert_json_def split: list.splits option.splits json_data.splits)

lemma reader_cb_root_type:
  assumes "reader_cb e st = Inr st'" "root st = Some r"
  shows "\<exists>r'. root st' = Some r' \<and> type_of r' = type_of r"
proof -
  have val: "reader_value v st = Inr st' \<Longrightarrow> ?thesis" for v
    using insert_json_root_type [of v st _ _ r] assms(2)
    by (auto simp: reader_value_def split: sum.splits prod.splits)
  have start: "reader_start t st = Inr st' \<Longrightarrow> ?thesis" for t
    using insert_json_root_type [of "json_data_of_type t" st _ _ r] assms(2)
    by (auto simp: reader_start_def split: sum.splits prod.splits)
  show ?thesis
    using assms val start
    by (cases e) (auto simp: reader_null_def reader_boolean_def reader_integer_def reader_double_def
        reader_string_def reader_start_map_def reader_start_array_def reader_map_key_def
        reader_end_map_def reader_end_array_def reader_end_def split: list.splits)
qed

subsection \<open>Running the event stream of a value\<close>

lemma feed_append:
  "feed (xs @ ys) st = (case feed xs st of Inl e \<Rightarrow> Inl e | Inr st' \<Rightarrow> feed ys st')"
  by (induction xs arbitrary: st) (simp_all split: sum.splits)

lemma insert_json_top:
  assumes "stack st = p # ps" "root st = Some r" "get_at p r = Some c" "accepts c (tempKey st)"
  shows "insert_json v st =
           Inr (st\<lparr>root := Some (upd_at p (\<lambda>_. add_child c (tempKey st) v) r)\<rparr>,
                p @ [new_sel c (tempKey st)])"
  using assms by (cases c) (simp_all add: insert_json_def)

lemma child_new_sel:
  "accepts c k \<Longrightarrow> child (new_sel c k) (add_child c k v) = Some v"
  by (cases c) (simp_all add: emplace_def map_add_def)

lemma upd_child_new_sel:
  "accepts c k \<Longrightarrow> upd_child (new_sel c k) (\<lambda>_. w) (add_child c k v) = add_child c k w"
proof (cases c)
  case (JMap ms)
  moreover have "map_of ms k = None \<Longrightarrow> AList.map_entry k (\<lambda>_. w) (ms @ [(k, v)]) = ms @ [(k, w)]"
    by (induction ms) auto
  ultimately show "accepts c k \<Longrightarrow> ?thesis" by (simp add: emplace_def)
qed simp_all

lemma upd_at_const_const: "upd_at p (\<lambda>_. a) (upd_at p (\<lambda>_. b) r) = upd_at p (\<lambda>_. a) r"
  by (simp add: upd_at_comp comp_def)

lemma feed_value:
  assumes "stack st = p # ps" "root st = Some r" "get_at p r = Some c" "accepts c (tempKey st)"
    and "reader_cb e = reader_value v"
  shows "feed [e] st = Inr (st\<lparr>root := Some (upd_at p (\<lambda>_. add_child c (tempKey st) v) r)\<rparr>)"
  using assms by (simp add: reader_value_def insert_json_top)

lemma feed_container:
  assumes top: "stack st = p # ps" "root st = Some r" "get_at p r = Some c" "accepts c (tempKey st)"
    and start: "reader_cb e\<^sub>s = reader_start t" and stop: "reader_cb e\<^sub>e = reader_end"
    and body: "\<And>st1 r1. stack st1 = (p @ [new_sel c (tempKey st)]) # p # ps \<Longrightarrow> root st1 = Some r1 \<Longrightarrow>
                 get_at (p @ [new_sel c (tempKey st)]) r1 = Some (json_data_of_type t) \<Longrightarrow>
                 \<exists>st2. feed es st1 = Inr st2 \<and> stack st2 = stack st1 \<and>
                   root st2 = Some (upd_at (p @ [new_sel c (tempKey st)]) (\<lambda>_. w) r1)"
  shows "\<exists>st'. feed (e\<^sub>s # es @ [e\<^sub>e]) st = Inr st' \<and> stack st' = p # ps \<and>
            root st' = Some (upd_at p (\<lambda>_. add_child c (tempKey st) w) r)"
proof -
  let ?k = "tempKey st" and ?s = "new_sel c (tempKey st)"
  let ?r1 = "upd_at p (\<lambda>_. add_child c ?k (json_data_of_type t)) r"
  let ?st1 = "st\<lparr>root := Some ?r1, stack := (p @ [?s]) # p # ps\<rparr>"
  have step1: "reader_cb e\<^sub>s st = Inr ?st1"
    using top by (simp add: start reader_start_def insert_json_top)
  have "get_at (p @ [?s]) ?r1 = Some (json_data_of_type t)"
    using top by (simp add: get_at_append get_at_upd_at_same child_new_sel)
  then obtain st2 where st2: "feed es ?st1 = Inr st2" "stack st2 = (p @ [?s]) # p # ps"
      "root st2 = Some (upd_at (p @ [?s]) (\<lambda>_. w) ?r1)"
    using body [of ?st1 ?r1] by auto
  have "upd_at (p @ [?s]) (\<lambda>_. w) ?r1 = upd_at p (\<lambda>_. add_child c ?k w) r"
    using top(4) by (simp add: upd_at_append upd_at_comp comp_def upd_child_new_sel)
  with st2 show ?thesis
    by (simp add: feed_append step1 stop reader_end_def)
qed

lemma feed_events:
  "\<And>st p ps r c. stack st = p # ps \<Longrightarrow> root st = Some r \<Longrightarrow> get_at p r = Some c \<Longrightarrow>
     accepts c (tempKey st) \<Longrightarrow> wf_json v \<Longrightarrow>
     \<exists>st'. feed (events_of v) st = Inr st' \<and> stack st' = p # ps \<and>
       root st' = Some (upd_at p (\<lambda>_. add_child c (tempKey st) v) r)"
  "\<And>st q qs r ms0. stack st = q # qs \<Longrightarrow> root st = Some r \<Longrightarrow> get_at q r = Some (JMap ms0) \<Longrightarrow>
     distinct (map fst (ms0 @ ms)) \<Longrightarrow> wf_members ms \<Longrightarrow>
     \<exists>st'. feed (events_members ms) st = Inr st' \<and> stack st' = q # qs \<and>
       root st' = Some (upd_at q (\<lambda>_. JMap (ms0 @ ms)) r)"
  "\<And>st q qs r xs0. stack st = q # qs \<Longrightarrow> root st = Some r \<Longrightarrow> get_at q r = Some (JArray xs0) \<Longrightarrow>
     wf_elems xs \<Longrightarrow>
     \<exists>st'. feed (events_elems xs) st = Inr st' \<and> stack st' = q # qs \<and>
       root st' = Some (upd_at q (\<lambda>_. JArray (xs0 @ xs)) r)"
proof (induction v and ms and xs rule: json_induct)
  case (Map ms)
  show ?case unfolding events_of.simps
  proof (rule feed_container [OF Map.prems(1-4)])
    fix st1 :: json_data_state and r1
    assume "stack st1 = (p @ [new_sel c (tempKey st)]) # p # ps" "root st1 = Some r1"
      "get_at (p @ [new_sel c (tempKey st)]) r1 = Some (json_data_of_type json_type_map)"
    with Map.IH [of st1 _ _ r1 "[]"] Map.prems(5)
    show "\<exists>st2. feed (events_members ms) st1 = Inr st2 \<and> stack st2 = stack st1 \<and>
            root st2 = Some (upd_at (p @ [new_sel c (tempKey st)]) (\<lambda>_. JMap ms) r1)"
      by auto
  qed (simp_all add: fun_eq_iff reader_start_map_def reader_end_map_def)
next
  case (Array xs)
  show ?case unfolding events_of.simps
  proof (rule feed_container [OF Array.prems(1-4)])
    fix st1 :: json_data_state and r1
    assume "stack st1 = (p @ [new_sel c (tempKey st)]) # p # ps" "root st1 = Some r1"
      "get_at (p @ [new_sel c (tempKey st)]) r1 = Some (json_data_of_type json_type_array)"
    with Array.IH [of st1 _ _ r1 "[]"] Array.prems(5)
    show "\<exists>st2. feed (events_elems xs) st1 = Inr st2 \<and> stack st2 = stack st1 \<and>
            root st2 = Some (upd_at (p @ [new_sel c (tempKey st)]) (\<lambda>_. JArray xs) r1)"
      by auto
  qed (simp_all add: fun_eq_iff reader_start_array_def reader_end_array_def)
next
  case (MCons k v ms)
  let ?st1 = "st\<lparr>tempKey := k\<rparr>"
  have key: "map_of ms0 k = None" and dist: "distinct (map fst ((ms0 @ [(k, v)]) @ ms))"
    using MCons.prems(4) by (auto simp: map_of_eq_None_iff)
  obtain st2 where st2: "feed (events_of v) ?st1 = Inr st2" "stack st2 = q # qs"
      "root st2 = Some (upd_at q (\<lambda>_. JMap (ms0 @ [(k, v)])) r)"
    using MCons.IH(1) [of ?st1 q qs r "JMap ms0"] MCons.prems key
    by (auto simp: emplace_def)
  have "get_at q (upd_at q (\<lambda>_. JMap (ms0 @ [(k, v)])) r) = Some (JMap (ms0 @ [(k, v)]))"
    using MCons.prems(3) by (simp add: get_at_upd_at_same)
  then obtain st3 where "feed (events_members ms) st2 = Inr st3" "stack st3 = q # qs"
      "root st3 = Some (upd_at q (\<lambda>_. JMap (ms0 @ [(k, v)] @ ms)) r)"
    using MCons.IH(2) [OF st2(2,3) _ dist] MCons.prems(5)
    by (auto simp: upd_at_const_const)
  then show ?case
    using st2(1) by (simp add: feed_append reader_map_key_def)
next
  case (ECons x xs)
  obtain st2 where st2: "feed (events_of x) st = Inr st2" "stack st2 = q # qs"
      "root st2 = Some (upd_at q (\<lambda>_. JArray (xs0 @ [x])) r)"
    using ECons.IH(1) [of st q qs r "JArray xs0"] ECons.prems by auto
  have "get_at q (upd_at q (\<lambda>_. JArray (xs0 @ [x])) r) = Some (JArray (xs0 @ [x]))"
    using ECons.prems(3) by (simp add: get_at_upd_at_same)
  then obtain st3 where "feed (events_elems xs) st2 = Inr st3" "stack st3 = q # qs"
      "root st3 = Some (upd_at q (\<lambda>_. JArray (xs0 @ [x] @ xs)) r)"
    using ECons.IH(2) [OF st2(2,3)] ECons.prems(4)
    by (auto simp: upd_at_const_const)
  then show ?case
    using st2(1) by (simp add: feed_append)
qed (auto simp: reader_value_def insert_json_top reader_null_def reader_boolean_def
                reader_integer_def reader_double_def reader_string_def upd_at_id)

lemma feed_events_init:
  assumes "wf_json v"
  shows "\<exists>st. feed (events_of v) init_state = Inr st \<and> stack st = [] \<and> root st = Some v"
proof (cases v)
  case (JMap ms)
  let ?st1 = "init_state\<lparr>root := Some (JMap []), stack := [[]]\<rparr>"
  have "reader_cb EvStartMap init_state = Inr ?st1"
    by (simp add: reader_start_map_def reader_start_def insert_json_def init_state_def)
  moreover obtain st2 where "feed (events_members ms) ?st1 = Inr st2" "stack st2 = [[]]"
      "root st2 = Some (JMap ms)"
    using feed_events(2) [of ?st1 "[]" "[]" "JMap []" "[]" ms] assms JMap by auto
  ultimately show ?thesis
    using JMap by (simp add: feed_append reader_end_map_def reader_end_def)
next
  case (JArray xs)
  let ?st1 = "init_state\<lparr>root := Some (JArray []), stack := [[]]\<rparr>"
  have "reader_cb EvStartArray init_state = Inr ?st1"
    by (simp add: reader_start_array_def reader_start_def insert_json_def init_state_def)
  moreover obtain st2 where "feed (events_elems xs) ?st1 = Inr st2" "stack st2 = [[]]"
      "root st2 = Some (JArray xs)"
    using feed_events(3) [of ?st1 "[]" "[]" "JArray []" "[]" xs] assms JArray by auto
  ultimately show ?thesis
    using JArray by (simp add: feed_append reader_end_array_def reader_end_def)
qed (simp_all add: init_state_def reader_value_def insert_json_def reader_null_def
       reader_boolean_def reader_integer_def reader_double_def reader_string_def)


subsection \<open>The invariant\<close>

lemma stack_chain_prefix: "stack_chain (p # ps) \<Longrightarrow> q \<in> set (p # ps) \<Longrightarrow> \<exists>d. p = q @ d"
proof (induction ps arbitrary: p)
  case Nil
  then show ?case by simp
next
  case (Cons q' ps)
  from Cons.prems(1) have ne: "p \<noteq> []" and bl: "butlast p = q'" and ch: "stack_chain (q' # ps)"
    by simp_all
  from ne bl have p: "p = q' @ [last p]"
    by (metis append_butlast_last_id)
  show ?case
  proof (cases "q = p")
    case True
    then show ?thesis by simp
  next
    case False
    with Cons.prems(2) have "q \<in> set (q' # ps)" by simp
    with Cons.IH ch obtain d where "q' = q @ d" by blast
    with p have "p = q @ (d @ [last p])" by simp
    then show ?thesis by blast
  qed
qed

lemma stack_chain_tl: "stack_chain (p # ps) \<Longrightarrow> stack_chain ps"
  by (cases ps) auto

lemma init_state_inv: "builder_inv init_state"
  by (simp add: builder_inv_def init_state_def)

lemma wf_emplace: "wf_json (JMap ms) \<Longrightarrow> wf_json v \<Longrightarrow> wf_json (JMap (emplace k v ms))"
  by (auto simp: emplace_def wf_members_iff map_of_eq_None_iff)

lemma wf_snoc: "wf_json (JArray xs) \<Longrightarrow> wf_json v \<Longrightarrow> wf_json (JArray (xs @ [v]))"
  by (simp add: wf_elems_iff)

lemma inv_write_top:
  assumes inv: "builder_inv st" and r: "root st = Some r" and top: "stack st = q # qs"
    and c: "get_at q r = Some c" and wf: "wf_json c'"
  shows "builder_inv (st\<lparr>root := Some (upd_at q (\<lambda>_. c') r)\<rparr>)"
proof -
  from inv r have wfr: "wf_json r" and ch: "stack_chain (q # qs)"
    and res: "\<forall>p \<in> set (q # qs). get_at p r \<noteq> None"
    using top by (simp_all add: builder_inv_def)
  have "\<forall>p \<in> set (q # qs). get_at p (upd_at q (\<lambda>_. c') r) \<noteq> None"
  proof
    fix p assume p: "p \<in> set (q # qs)"
    with ch obtain d where "q = p @ d" using stack_chain_prefix by blast
    moreover from p res obtain c'' where "get_at p r = Some c''" by blast
    ultimately show "get_at p (upd_at q (\<lambda>_. c') r) \<noteq> None"
      by (simp add: get_at_upd_at_prefix)
  qed
  moreover have "wf_json (upd_at q (\<lambda>_. c') r)"
    using wfr c wf by (rule wf_upd_at)
  ultimately show ?thesis
    using ch top by (simp add: builder_inv_def)
qed

lemma insert_json_inv:
  assumes inv: "builder_inv st" and wf: "wf_json v" and ins: "insert_json v st = Inr (st', p)"
  shows "builder_inv st' \<and> stack st' = stack st \<and> tempKey st' = tempKey st \<and>
         stack_chain (p # stack st) \<and> (\<exists>r'. root st' = Some r' \<and> get_at p r' \<noteq> None)"
proof (cases "root st")
  case None
  with inv have "stack st = []" by (simp add: builder_inv_def)
  with None ins wf show ?thesis by (auto simp: insert_json_def builder_inv_def)
next
  case (Some r)
  then obtain q qs where top: "stack st = q # qs"
    using ins by (cases "stack st") (simp_all add: insert_json_def)
  with inv Some obtain c where c: "get_at q r = Some c" and ch: "stack_chain (q # qs)"
    and wfr: "wf_json r"
    by (auto simp: builder_inv_def)
  have wfc: "wf_json c" using wfr c by (rule wf_get_at)
  show ?thesis
  proof (cases c)
    case (JMap ms)
    let ?c' = "JMap (emplace (tempKey st) v ms)"
    from ins Some top c JMap have st': "st' = st\<lparr>root := Some (upd_at q (\<lambda>_. ?c') r)\<rparr>"
      and p: "p = q @ [SKey (tempKey st)]"
      by (simp_all add: insert_json_def)
    have "wf_json ?c'" by (rule wf_emplace) (use wfc JMap wf in simp_all)
    then have "builder_inv st'" using inv Some top c st' by (simp add: inv_write_top)
    moreover have "get_at p (upd_at q (\<lambda>_. ?c') r) \<noteq> None"
      using c p by (simp add: get_at_append get_at_upd_at_same emplace_def map_add_def split: option.splits)
    ultimately show ?thesis using st' p top ch by simp
  next
    case (JArray xs)
    let ?c' = "JArray (xs @ [v])"
    from ins Some top c JArray have st': "st' = st\<lparr>root := Some (upd_at q (\<lambda>_. ?c') r)\<rparr>"
      and p: "p = q @ [SIdx (length xs)]"
      by (simp_all add: insert_json_def)
    have "wf_json ?c'" by (rule wf_snoc) (use wfc JArray wf in simp_all)
    then have "builder_inv st'" using inv Some top c st' by (simp add: inv_write_top)
    moreover have "get_at p (upd_at q (\<lambda>_. ?c') r) \<noteq> None"
      using c p by (simp add: get_at_append get_at_upd_at_same)
    ultimately show ?thesis using st' p top ch by simp
  qed (use ins Some top c in \<open>simp_all add: insert_json_def\<close>)
qed

lemma reader_value_inv:
  "reader_value v st = Inr st' \<Longrightarrow> builder_inv st \<Longrightarrow> wf_json v \<Longrightarrow> builder_inv st'"
  by (auto simp: reader_value_def split: sum.splits dest: insert_json_inv)

lemma reader_start_inv:
  assumes inv: "builder_inv st" and step: "reader_start t st = Inr st'"
  shows "builder_inv st'"
proof -
  from step obtain st1 p where ins: "insert_json (json_data_of_type t) st = Inr (st1, p)"
    and st': "st' = st1\<lparr>stack := p # stack st1\<rparr>"
    by (auto simp: reader_start_def split: sum.splits)
  from insert_json_inv [OF inv wf_json_data_of_type ins] obtain r' where
    inv1: "builder_inv st1" and stk: "stack st1 = stack st" and ch: "stack_chain (p # stack st)"
    and r': "root st1 = Some r'" "get_at p r' \<noteq> None"
    by blast
  from inv1 r' have "wf_json r'" "\<forall>q \<in> set (stack st1). get_at q r' \<noteq> None"
    by (simp_all add: builder_inv_def)
  with r' ch stk st' show ?thesis by (simp add: builder_inv_def)
qed

lemma reader_end_inv: "builder_inv st \<Longrightarrow> reader_end st = Inr st' \<Longrightarrow> builder_inv st'"
  by (auto simp: reader_end_def builder_inv_def stack_chain_tl split: list.splits option.splits)

lemma reader_cb_inv: "builder_inv st \<Longrightarrow> reader_cb e st = Inr st' \<Longrightarrow> builder_inv st'"
proof (cases e)
  case (EvMapKey k)
  then show "builder_inv st \<Longrightarrow> reader_cb e st = Inr st' \<Longrightarrow> builder_inv st'"
    by (auto simp: reader_map_key_def builder_inv_def split: option.splits)
qed (auto simp: reader_null_def reader_boolean_def reader_integer_def reader_double_def
        reader_string_def reader_start_map_def reader_start_array_def reader_end_map_def
        reader_end_array_def
        dest: reader_value_inv intro: reader_start_inv reader_end_inv)

lemma feed_inv: "builder_inv st \<Longrightarrow> feed es st = Inr st' \<Longrightarrow> builder_inv st'"
  by (induction es arbitrary: st) (auto split: sum.splits intro: reader_cb_inv)

lemma insert_json_defined: "builder_inv st \<Longrightarrow> insert_json v st \<noteq> Inl UndefinedBehaviour"
  by (auto simp: insert_json_def builder_inv_def split: option.splits list.splits json_data.splits)

lemma reader_cb_undefined:
  "builder_inv st \<Longrightarrow> reader_cb e st = Inl UndefinedBehaviour \<Longrightarrow>
     (e = EvEndMap \<or> e = EvEndArray) \<and> stack st = []"
  by (cases e) (auto simp: reader_null_def reader_boolean_def reader_integer_def
        reader_double_def reader_string_def reader_start_map_def reader_start_array_def
        reader_end_map_def reader_end_array_def reader_map_key_def reader_value_def
        reader_start_def reader_end_def insert_json_defined
        split: sum.splits list.splits dest: insert_json_defined)

lemma insert_json_dup_key:
  assumes "stack st = p # ps" "root st = Some r" "get_at p r = Some (JMap ms)"
    "map_of ms (tempKey st) = Some old"
  shows "insert_json v st = Inr (st, p @ [SKey (tempKey st)])"
proof -
  have "upd_at p (\<lambda>_. JMap (emplace (tempKey st) v ms)) r = r"
    using assms(3,4) by (simp add: emplace_def upd_at_id)
  with assms show ?thesis by (simp add: insert_json_def)
qed

lemma feed_prefix_ok: "feed (xs @ ys) st = Inr st' \<Longrightarrow> \<exists>st1. feed xs st = Inr st1"
  by (simp add: feed_append split: sum.splits)

lemma feed_root_kept: "feed es st = Inr st' \<Longrightarrow> root st \<noteq> None \<Longrightarrow> root st' \<noteq> None"
proof (induction es arbitrary: st)
  case (Cons e es)
  then obtain st1 where "reader_cb e st = Inr st1" "feed es st1 = Inr st'"
    by (auto split: sum.splits)
  with Cons.IH Cons.prems(2) show ?case by (blast dest: reader_cb_root_type)
qed simp

lemma events_of_first_root:
  "\<exists>e es st0. events_of v = e # es \<and> reader_cb e init_state = Inr st0 \<and> root st0 \<noteq> None"
  by (cases v) (simp_all add: builder_eval)

lemma reader_cb_same_but_end: "same_but_end e e' \<Longrightarrow> reader_cb e = reader_cb e'"
  by (auto simp: same_but_end_def fun_eq_iff reader_end_map_def reader_end_array_def)

subsection \<open>Properties of the builder\<close>

text \<open>
  C1.  Round trip of the builder: fed the event stream of any well-formed
  document (every map with pairwise distinct keys), the callbacks never fail,
  and the root they leave is exactly that document.
\<close>

theorem build_events_of: "wf_json v \<Longrightarrow> build (events_of v) = Inr (Some v)"
  using feed_events_init [of v] by (auto simp: build_def)

theorem build_events_of_witness:
  "wf_json (JMap [(''a'', JInteger 1), (''b'', JArray [JBoolean True, JNull, JString ''x''])]) \<and>
   build (events_of (JMap [(''a'', JInteger 1), (''b'', JArray [JBoolean True, JNull, JString ''x''])])) =
     Inr (Some (JMap [(''a'', JInteger 1), (''b'', JArray [JBoolean True, JNull, JString ''x''])]))"
  using build_events_of [of "JMap [(''a'', JInteger 1), (''b'', JArray [JBoolean True, JNull, JString ''x''])]"]
  by simp

text \<open>
  C2.  Invariant of the builder: in every state the callbacks can reach from the
  initial state, the stack pointers form a chain of parent positions starting at
  the root, each of them points into the tree, and every map of the tree has
  distinct keys.
\<close>

theorem reachable_builder_inv: "builder_reachable st \<Longrightarrow> builder_inv st"
proof (induction rule: builder_reachable.induct)
  case init
  show ?case by (rule init_state_inv)
next
  case (step st e st')
  then show ?case by (blast intro: reader_cb_inv)
qed

theorem reachable_builder_inv_witness:
  "builder_reachable \<lparr>stack = [[]], tempKey = [], root = Some (JArray [])\<rparr> \<and>
   builder_inv \<lparr>stack = [[]], tempKey = [], root = Some (JArray [])\<rparr>"
proof -
  have r: "builder_reachable \<lparr>stack = [[]], tempKey = [], root = Some (JArray [])\<rparr>"
    by (rule builder_reachable.step [OF builder_reachable.init, of EvStartArray])
       (simp add: builder_eval)
  show ?thesis using r reachable_builder_inv [OF r] by simp
qed

text \<open>
  C3.  Memory safety of the builder: no callback ever reads or writes through a
  pointer that does not point into the tree.  The only undefined behaviour a
  run of the callbacks can reach is an end-of-container event arriving when the
  stack is empty (\<open>std::stack::pop\<close> on an empty stack).
\<close>

theorem feed_undefined_only_pop:
  "feed es init_state = Inl UndefinedBehaviour \<Longrightarrow>
     \<exists>pre e post st. es = pre @ e # post \<and> feed pre init_state = Inr st \<and> stack st = [] \<and>
       (e = EvEndMap \<or> e = EvEndArray)"
proof -
  have "\<And>st. builder_inv st \<Longrightarrow> feed es st = Inl UndefinedBehaviour \<Longrightarrow>
     \<exists>pre e post st'. es = pre @ e # post \<and> feed pre st = Inr st' \<and> stack st' = [] \<and>
       (e = EvEndMap \<or> e = EvEndArray)"
  proof (induction es)
    case Nil
    then show ?case by simp
  next
    case (Cons e es)
    show ?case
    proof (cases "reader_cb e st")
      case (Inl err)
      with Cons.prems have "reader_cb e st = Inl UndefinedBehaviour" by simp
      with Cons.prems(1) have "(e = EvEndMap \<or> e = EvEndArray) \<and> stack st = []"
        by (rule reader_cb_undefined)
      then show ?thesis by (metis append_Nil feed.simps(1))
    next
      case (Inr st1)
      with Cons.prems have "builder_inv st1" "feed es st1 = Inl UndefinedBehaviour"
        by (simp_all add: reader_cb_inv)
      with Cons.IH obtain pre e' post st' where "es = pre @ e' # post" "feed pre st1 = Inr st'"
          "stack st' = []" "e' = EvEndMap \<or> e' = EvEndArray"
        by blast
      with Inr show ?thesis
        by (metis Cons_eq_appendI feed.simps(2) sum.simps(6))
    qed
  qed
  then show "feed es init_state = Inl UndefinedBehaviour \<Longrightarrow> ?thesis"
    using init_state_inv by blast
qed

theorem feed_undefined_only_pop_witness:
  "feed [EvEndArray] init_state = Inl UndefinedBehaviour \<and>
   (\<exists>pre e post st. [EvEndArray] = pre @ e # post \<and> feed pre init_state = Inr st \<and>
      stack st = [] \<and> (e = EvEndMap \<or> e = EvEndArray))"
proof -
  have h: "feed [EvEndArray] init_state = Inl UndefinedBehaviour"
    by (simp add: builder_eval)
  show ?thesis using h feed_undefined_only_pop [OF h] by simp
qed

text \<open>
  C4.  Duplicate keys, first write wins: when the buffered key is already a
  member of the map on top of the stack, a scalar value leaves the whole builder
  state unchanged (\<open>emplace\<close> does not replace).  The specification asks for
  last-write-wins.
\<close>

theorem duplicate_key_first_wins:
  assumes "stack st = p # ps" "root st = Some r" "get_at p r = Some (JMap ms)"
    "map_of ms (tempKey st) = Some old"
  shows "reader_value v st = Inr st"
  using insert_json_dup_key [OF assms] by (simp add: reader_value_def)

theorem duplicate_key_first_wins_witness:
  "reader_value (JInteger 2) \<lparr>stack = [[]], tempKey = ''k'', root = Some (JMap [(''k'', JInteger 1)])\<rparr> =
     Inr \<lparr>stack = [[]], tempKey = ''k'', root = Some (JMap [(''k'', JInteger 1)])\<rparr>"
  by (rule duplicate_key_first_wins [of _ "[]" "[]" "JMap [(''k'', JInteger 1)]"
        "[(''k'', JInteger 1)]" "JInteger 1"]) simp_all

text \<open>
  C5.  A container under a duplicate key aliases the first value: when the
  buffered key is already a member of the map on top of the stack and its
  value is an array, the events of a new array under that key do not create
  one; \<open>insert\<close> returns the pointer to the old member, the start callback
  pushes it, and every element of the new array is appended to the old array.
  The map itself gains no member.
\<close>

theorem duplicate_key_container_alias:
  assumes "stack st = p # ps" "root st = Some r" "get_at p r = Some (JMap ms)"
    "map_of ms (tempKey st) = Some (JArray xs0)" "wf_elems xs"
  shows "\<exists>st'. feed (events_of (JArray xs)) st = Inr st' \<and> stack st' = p # ps \<and>
           root st' = Some (upd_at (p @ [SKey (tempKey st)]) (\<lambda>_. JArray (xs0 @ xs)) r)"
proof -
  let ?q = "p @ [SKey (tempKey st)]"
  let ?st1 = "st\<lparr>stack := ?q # p # ps\<rparr>"
  have start: "reader_cb EvStartArray st = Inr ?st1"
    using insert_json_dup_key [OF assms(1-4)] assms(1)
    by (simp add: reader_start_array_def reader_start_def)
  have "get_at ?q r = Some (JArray xs0)"
    using assms(3,4) by (simp add: get_at_append)
  then obtain st2 where "feed (events_elems xs) ?st1 = Inr st2" "stack st2 = ?q # p # ps"
      "root st2 = Some (upd_at ?q (\<lambda>_. JArray (xs0 @ xs)) r)"
    using feed_events(3) [of ?st1 ?q "p # ps" r xs0 xs] assms(2,5) by auto
  then show ?thesis
    using start by (simp add: feed_append reader_end_array_def reader_end_def)
qed

theorem duplicate_key_container_alias_witness:
  "(\<exists>st'. feed (events_of (JArray [JInteger 2]))
           \<lparr>stack = [[]], tempKey = ''k'', root = Some (JMap [(''k'', JArray [JInteger 1])])\<rparr> = Inr st' \<and>
         stack st' = [[]] \<and> root st' = Some (JMap [(''k'', JArray [JInteger 1, JInteger 2])]))"
  using duplicate_key_container_alias [of "\<lparr>stack = [[]], tempKey = ''k'', root = Some (JMap [(''k'', JArray [JInteger 1])])\<rparr>"
      "[]" "[]" "JMap [(''k'', JArray [JInteger 1])]" "[(''k'', JArray [JInteger 1])]" "[JInteger 1]" "[JInteger 2]"]
  by simp

text \<open>
  C6.  The end callbacks check nothing: an end event pops whatever is on top,
  so in every state and for every event stream, exchanging end-of-map and
  end-of-array events anywhere in the stream changes nothing.  A stream whose
  brackets do not match is accepted exactly like the matching one; the
  specification's \<open>UnbalancedContainer\<close> is left entirely to the parser.
\<close>

theorem end_events_unchecked:
  assumes "list_all2 same_but_end es es'"
  shows "feed es st = feed es' st"
  using assms
  by (induction arbitrary: st rule: list_all2_induct) (simp_all add: reader_cb_same_but_end split: sum.split)

theorem end_events_unchecked_witness:
  "feed [EvStartMap, EvMapKey ''k'', EvStartArray, EvEndMap, EvEndArray] init_state =
   feed [EvStartMap, EvMapKey ''k'', EvStartArray, EvEndArray, EvEndMap] init_state"
  by (rule end_events_unchecked) (simp add: same_but_end_def)

text \<open>
  C7.  Truncation is not checked by the builder: every non-empty prefix of the
  event stream of a well-formed document, a stream that stops inside any
  number of open containers, is accepted by the callbacks and \<open>build\<close>
  returns a tree for it (the specification's \<open>TruncatedInput\<close>).
\<close>

theorem truncation_unchecked:
  assumes "wf_json v"
  shows "\<exists>t. build (take (Suc n) (events_of v)) = Inr (Some t)"
proof -
  obtain st where "feed (events_of v) init_state = Inr st"
    using feed_events_init [OF assms] by blast
  then obtain st1 where st1: "feed (take (Suc n) (events_of v)) init_state = Inr st1"
    using feed_prefix_ok [of "take (Suc n) (events_of v)" "drop (Suc n) (events_of v)"] by auto
  obtain e es st0 where ev: "events_of v = e # es" "reader_cb e init_state = Inr st0" "root st0 \<noteq> None"
    using events_of_first_root by blast
  then have "feed (take n es) st0 = Inr st1" using st1 by simp
  then have "root st1 \<noteq> None" using ev(3) by (rule feed_root_kept)
  then show ?thesis using st1 by (auto simp: build_def)
qed

theorem truncation_unchecked_witness:
  "wf_json (JMap [(''a'', JArray [JInteger 1, JInteger 2])]) \<and>
   build (take (Suc 3) (events_of (JMap [(''a'', JArray [JInteger 1, JInteger 2])]))) =
     Inr (Some (JMap [(''a'', JArray [JInteger 1])]))"
proof -
  have h: "wf_json (JMap [(''a'', JArray [JInteger 1, JInteger 2])])" by simp
  obtain t where "build (take (Suc 3) (events_of (JMap [(''a'', JArray [JInteger 1, JInteger 2])]))) = Inr (Some t)"
    using truncation_unchecked [OF h, of 3] by blast
  moreover have "build (take (Suc 3) (events_of (JMap [(''a'', JArray [JInteger 1, JInteger 2])]))) =
     Inr (Some (JMap [(''a'', JArray [JInteger 1])]))"
    by (simp add: builder_eval)
  ultimately show ?thesis using h by simp
qed

text \<open>
  C8.  A second top-level value is refused: once the root is set and every
  container is closed, inserting a scalar or starting a container makes the
  callback return 0.
\<close>

theorem second_top_level_value_canceled:
  assumes "root st = Some r" "stack st = []"
  shows "reader_value v st = Inl ClientCanceled \<and> reader_start t st = Inl ClientCanceled"
  using assms by (simp add: reader_value_def reader_start_def insert_json_def)

theorem second_top_level_value_canceled_witness:
  "reader_value JNull \<lparr>stack = [], tempKey = [], root = Some JNull\<rparr> = Inl ClientCanceled \<and>
   reader_start json_type_array \<lparr>stack = [], tempKey = [], root = Some JNull\<rparr> = Inl ClientCanceled"
  by (rule second_top_level_value_canceled [of _ JNull]) simp_all

text \<open>
  C34.  The type of the document is fixed by its first value: once the root
  exists, no callback changes its type, whatever the events that follow and
  whatever the state (a scalar root stays that scalar's type, a container
  root stays a map or an array, however its contents grow).  \<open>insert\<close> only
  ever writes below the root or appends to the container at the root.
\<close>

theorem feed_root_type:
  assumes "feed es st = Inr st'" "root st = Some r"
  shows "\<exists>r'. root st' = Some r' \<and> type_of r' = type_of r"
  using assms
proof (induction es arbitrary: st r)
  case Nil
  then show ?case by simp
next
  case (Cons e es)
  then obtain st1 where st1: "reader_cb e st = Inr st1" "feed es st1 = Inr st'"
    by (auto split: sum.splits)
  obtain r1 where "root st1 = Some r1" "type_of r1 = type_of r"
    using reader_cb_root_type [OF st1(1) Cons.prems(2)] by blast
  then show ?case using Cons.IH [OF st1(2)] by auto
qed

theorem feed_root_type_witness:
  "feed [EvInteger 1, EvEndArray] \<lparr>stack = [[]], tempKey = [], root = Some (JArray [])\<rparr> =
     Inr \<lparr>stack = [], tempKey = [], root = Some (JArray [JInteger 1])\<rparr> \<and>
   root \<lparr>stack = [[]], tempKey = [], root = Some (JArray [])\<rparr> = Some (JArray []) \<and>
   (\<exists>r'. root \<lparr>stack = [], tempKey = [], root = Some (JArray [JInteger 1])\<rparr> = Some r' \<and>
      type_of r' = type_of (JArray []))"
proof -
  have h: "feed [EvInteger 1, EvEndArray] \<lparr>stack = [[]], tempKey = [], root = Some (JArray [])\<rparr> =
     Inr \<lparr>stack = [], tempKey = [], root = Some (JArray [JInteger 1])\<rparr>"
    by (simp add: builder_eval)
  show ?thesis using h feed_root_type [OF h] by simp
qed

end
