(* ===== verification/Yajl_Gen.thy ===== *)
theory Yajl_Gen
  imports Events
begin

text \<open>
  The yajl generator as the specification describes it (its sources are not
  part of the repository): an encoder with a stack of open containers that
  accepts output primitives one at a time, refuses a primitive that is out of
  place with a status other than \<open>yajl_gen_status_ok\<close> (leaving its state
  unchanged), and refuses to open a container beyond a fixed nesting bound
  (\<open>yajl_max_depth_exceeded\<close>, the specification's \<open>DepthExceeded\<close>).  Its
  output is kept as the stream of tokens it has written, in the form a parser
  reads it back: a string written where a key is expected is a key event.  The
  pretty layout of that stream is a separate function of it.
\<close>

datatype yajl_gen_status =
    yajl_gen_status_ok
  | yajl_gen_keys_must_be_strings
  | yajl_max_depth_exceeded
  | yajl_gen_in_error_state
  | yajl_gen_generation_complete

text \<open>What the generator expects inside each open container.\<close>

datatype gen_ctx = GMapKey | GMapVal | GArray

record yajl_gen =
  gen_ctx :: "gen_ctx list"
  gen_complete :: bool
  gen_out :: "yajl_event list"
  gen_max_depth :: nat

text \<open>The bound of the bundled yajl (\<open>YAJL_MAX_DEPTH\<close>); the theorems hold for any bound.\<close>

definition yajl_max_depth :: nat where
  "yajl_max_depth = 128"

definition yajl_gen_alloc :: yajl_gen where
  "yajl_gen_alloc = \<lparr>gen_ctx = [], gen_complete = False, gen_out = [], gen_max_depth = yajl_max_depth\<rparr>"

text \<open>After a complete value, a map that expected a value expects a key again.\<close>

fun after_value :: "gen_ctx list \<Rightarrow> gen_ctx list" where
  "after_value (GMapVal # cs) = GMapKey # cs"
| "after_value cs = cs"

definition gen_atom :: "yajl_event \<Rightarrow> yajl_gen \<Rightarrow> yajl_gen_status \<times> yajl_gen" where
  "gen_atom e g =
     (if gen_complete g then (yajl_gen_generation_complete, g)
      else case gen_ctx g of
             GMapKey # _ \<Rightarrow> (yajl_gen_keys_must_be_strings, g)
           | cs \<Rightarrow> (yajl_gen_status_ok,
                    g\<lparr>gen_ctx := after_value cs, gen_complete := (cs = []), gen_out := gen_out g @ [e]\<rparr>))"

definition yajl_gen_null :: "yajl_gen \<Rightarrow> yajl_gen_status \<times> yajl_gen" where
  "yajl_gen_null g = gen_atom EvNull g"

definition yajl_gen_bool :: "bool \<Rightarrow> yajl_gen \<Rightarrow> yajl_gen_status \<times> yajl_gen" where
  "yajl_gen_bool b g = gen_atom (EvBoolean b) g"

definition yajl_gen_integer :: "int64 \<Rightarrow> yajl_gen \<Rightarrow> yajl_gen_status \<times> yajl_gen" where
  "yajl_gen_integer i g = gen_atom (EvInteger i) g"

definition yajl_gen_double :: "f64 \<Rightarrow> yajl_gen \<Rightarrow> yajl_gen_status \<times> yajl_gen" where
  "yajl_gen_double r g = gen_atom (EvDouble r) g"

text \<open>A string is a key where a key is expected, a value anywhere else.\<close>

definition yajl_gen_string :: "bytes \<Rightarrow> yajl_gen \<Rightarrow> yajl_gen_status \<times> yajl_gen" where
  "yajl_gen_string s g =
     (if gen_complete g then (yajl_gen_generation_complete, g)
      else case gen_ctx g of
             GMapKey # cs \<Rightarrow> (yajl_gen_status_ok, g\<lparr>gen_ctx := GMapVal # cs, gen_out := gen_out g @ [EvMapKey s]\<rparr>)
           | _ \<Rightarrow> gen_atom (EvString s) g)"

definition gen_open :: "gen_ctx \<Rightarrow> yajl_event \<Rightarrow> yajl_gen \<Rightarrow> yajl_gen_status \<times> yajl_gen" where
  "gen_open c e g =
     (if gen_complete g then (yajl_gen_generation_complete, g)
      else case gen_ctx g of
             GMapKey # _ \<Rightarrow> (yajl_gen_keys_must_be_strings, g)
           | cs \<Rightarrow> (if gen_max_depth g \<le> Suc (length cs) then (yajl_max_depth_exceeded, g)
                    else (yajl_gen_status_ok, g\<lparr>gen_ctx := c # after_value cs, gen_out := gen_out g @ [e]\<rparr>)))"

definition gen_close :: "gen_ctx \<Rightarrow> yajl_event \<Rightarrow> yajl_gen \<Rightarrow> yajl_gen_status \<times> yajl_gen" where
  "gen_close c e g =
     (if gen_complete g then (yajl_gen_generation_complete, g)
      else case gen_ctx g of
             c' # cs \<Rightarrow> (if c' = c then (yajl_gen_status_ok,
                            g\<lparr>gen_ctx := cs, gen_complete := (cs = []), gen_out := gen_out g @ [e]\<rparr>)
                         else (yajl_gen_in_error_state, g))
           | [] \<Rightarrow> (yajl_gen_in_error_state, g))"

definition yajl_gen_map_open :: "yajl_gen \<Rightarrow> yajl_gen_status \<times> yajl_gen" where
  "yajl_gen_map_open g = gen_open GMapKey EvStartMap g"

definition yajl_gen_map_close :: "yajl_gen \<Rightarrow> yajl_gen_status \<times> yajl_gen" where
  "yajl_gen_map_close g = gen_close GMapKey EvEndMap g"

definition yajl_gen_array_open :: "yajl_gen \<Rightarrow> yajl_gen_status \<times> yajl_gen" where
  "yajl_gen_array_open g = gen_open GArray EvStartArray g"

definition yajl_gen_array_close :: "yajl_gen \<Rightarrow> yajl_gen_status \<times> yajl_gen" where
  "yajl_gen_array_close g = gen_close GArray EvEndArray g"

text \<open>A state that accepts a value next: not finished, and not waiting for a key.\<close>

definition expects_value :: "yajl_gen \<Rightarrow> bool" where
  "expects_value g \<longleftrightarrow> \<not> gen_complete g \<and> (case gen_ctx g of GMapKey # _ \<Rightarrow> False | _ \<Rightarrow> True)"

lemmas gen_eval = yajl_gen_alloc_def yajl_max_depth_def yajl_gen_null_def yajl_gen_bool_def
  yajl_gen_integer_def yajl_gen_double_def yajl_gen_string_def gen_atom_def gen_open_def gen_close_def
  yajl_gen_map_open_def yajl_gen_map_close_def yajl_gen_array_open_def yajl_gen_array_close_def

subsection \<open>The primitives on a state that expects a value\<close>

lemma length_after_value [simp]: "length (after_value cs) = length cs"
  by (cases cs rule: after_value.cases) simp_all

lemma after_value_Nil_iff [simp]: "after_value cs = [] \<longleftrightarrow> cs = []"
  by (cases cs rule: after_value.cases) simp_all

lemma gen_atom_ok:
  "expects_value g \<Longrightarrow>
     gen_atom e g = (yajl_gen_status_ok,
       g\<lparr>gen_ctx := after_value (gen_ctx g), gen_complete := (gen_ctx g = []), gen_out := gen_out g @ [e]\<rparr>)"
  by (auto simp: gen_atom_def expects_value_def split: list.splits gen_ctx.splits)

lemma gen_string_value_ok:
  "expects_value g \<Longrightarrow>
     yajl_gen_string s g = (yajl_gen_status_ok,
       g\<lparr>gen_ctx := after_value (gen_ctx g), gen_complete := (gen_ctx g = []), gen_out := gen_out g @ [EvString s]\<rparr>)"
  by (auto simp: yajl_gen_string_def gen_atom_def expects_value_def split: list.splits gen_ctx.splits)

lemma gen_open_ok:
  "expects_value g \<Longrightarrow> Suc (length (gen_ctx g)) < gen_max_depth g \<Longrightarrow>
     gen_open c e g = (yajl_gen_status_ok, g\<lparr>gen_ctx := c # after_value (gen_ctx g), gen_out := gen_out g @ [e]\<rparr>)"
  by (auto simp: gen_open_def expects_value_def split: list.splits gen_ctx.splits)

lemma gen_close_ok:
  "gen_ctx g = c # cs \<Longrightarrow> \<not> gen_complete g \<Longrightarrow>
     gen_close c e g = (yajl_gen_status_ok, g\<lparr>gen_ctx := cs, gen_complete := (cs = []), gen_out := gen_out g @ [e]\<rparr>)"
  by (simp add: gen_close_def)

lemma gen_open_exceeded:
  "expects_value g \<Longrightarrow> gen_max_depth g \<le> Suc (length (gen_ctx g)) \<Longrightarrow>
     gen_open c e g = (yajl_max_depth_exceeded, g)"
  by (auto simp: gen_open_def expects_value_def split: list.splits gen_ctx.splits)

end
