(* ===== verification/Map_Order.thy ===== *)
theory Map_Order
  imports Json_Value "HOL-Library.Multiset"
begin

text \<open>
  The order in which a \<open>std::unordered_map\<close> enumerates its members (the
  range-for of \<open>generate_json\<close>, src/program.cpp lines 187-203) is not the
  order of insertion: it is fixed by the hash of the keys and the bucket
  layout, which the program does not control.  The model takes it as a
  parameter \<open>ord\<close> computed from the key list: the positions of the members in
  enumeration order.  \<open>enum_members\<close> lists the members in that order; a result
  that is not a permutation of the positions is not an order of the map, and
  \<open>enum_members\<close> then keeps insertion order, so every \<open>ord\<close> denotes some
  permutation and \<open>insertion_order\<close> is one of them.  \<open>reorder\<close> applies the
  enumeration at every map of a tree: it is the tree as the serializer sees it.
\<close>

type_synonym map_order = "bytes list \<Rightarrow> nat list"

definition enum_members :: "map_order \<Rightarrow> (bytes \<times> 'a) list \<Rightarrow> (bytes \<times> 'a) list" where
  "enum_members ord ms =
     (let p = ord (map fst ms) in if mset p = mset [0..<length ms] then map (nth ms) p else ms)"

definition insertion_order :: map_order where
  "insertion_order ks = [0..<length ks]"

fun reorder :: "map_order \<Rightarrow> json_data \<Rightarrow> json_data"
and reorder_members :: "map_order \<Rightarrow> (bytes \<times> json_data) list \<Rightarrow> (bytes \<times> json_data) list"
and reorder_elems :: "map_order \<Rightarrow> json_data list \<Rightarrow> json_data list" where
  "reorder ord (JMap ms) = JMap (enum_members ord (reorder_members ord ms))"
| "reorder ord (JArray xs) = JArray (reorder_elems ord xs)"
| "reorder ord v = v"
| "reorder_members ord [] = []"
| "reorder_members ord ((k, v) # ms) = (k, reorder ord v) # reorder_members ord ms"
| "reorder_elems ord [] = []"
| "reorder_elems ord (x # xs) = reorder ord x # reorder_elems ord xs"

lemma mset_enum_members [simp]: "mset (enum_members ord ms) = mset ms"
proof -
  have "mset (map (nth ms) p) = mset ms" if "mset p = mset [0..<length ms]" for p
  proof -
    have "mset (map (nth ms) p) = image_mset (nth ms) (mset [0..<length ms])"
      using that by simp
    also have "\<dots> = mset (map (nth ms) [0..<length ms])" by (simp only: mset_map)
    also have "\<dots> = mset ms" by (simp only: map_nth)
    finally show ?thesis .
  qed
  then show ?thesis by (simp add: enum_members_def Let_def)
qed

lemma set_enum_members [simp]: "set (enum_members ord ms) = set ms"
proof -
  have "set_mset (mset (enum_members ord ms)) = set_mset (mset ms)" by simp
  then show ?thesis by (simp only: set_mset_mset)
qed

lemma enum_members_map_values:
  "enum_members ord (map (\<lambda>(k, v). (k, f v)) ms) = map (\<lambda>(k, v). (k, f v)) (enum_members ord ms)"
proof -
  have fst_eq: "fst \<circ> (\<lambda>(k, v). (k, f v)) = fst" by auto
  show ?thesis
  proof (cases "mset (ord (map fst ms)) = mset [0..<length ms]")
    case True
    then have "set (ord (map fst ms)) = {0..<length ms}" by (metis set_mset_mset set_upt)
    then show ?thesis using True by (auto simp: enum_members_def Let_def fst_eq)
  next
    case False
    then show ?thesis by (simp add: enum_members_def Let_def fst_eq)
  qed
qed

lemma enum_members_insertion_order [simp]: "enum_members insertion_order ms = ms"
  by (simp add: enum_members_def insertion_order_def map_nth)

lemma enum_members_Nil [simp]: "enum_members ord [] = []"
  by (simp add: enum_members_def Let_def)

lemma enum_members_single [simp]: "enum_members ord [m] = [m]"
  by (auto simp: enum_members_def Let_def)

lemma perm_two:
  assumes "mset p = mset [0, Suc 0]"
  shows "p = [0, Suc 0] \<or> p = [Suc 0, 0]"
proof -
  have "length p = 2" using assms by (metis size_mset length_Cons list.size(3) numeral_2_eq_2)
  then obtain a b where p: "p = [a, b]"
    by (cases p; cases "tl p") (auto simp: numeral_2_eq_2)
  have s: "set [a, b] = {0, Suc 0}" using assms p by (metis set_mset_mset set_simps(1,2))
  have d: "distinct [a, b]" using assms p mset_eq_imp_distinct_iff [of p "[0, Suc 0]"] by simp
  have "a \<in> {0, Suc 0}" "b \<in> {0, Suc 0}" using s by (simp_all only: set_simps, blast+)
  then have "a = 0 \<or> a = Suc 0" "b = 0 \<or> b = Suc 0" by simp_all
  then show ?thesis using d p by auto
qed

lemma enum_members_pair: "enum_members ord [m1, m2] = [m1, m2] \<or> enum_members ord [m1, m2] = [m2, m1]"
proof (cases "mset (ord (map fst [m1, m2])) = mset [0..<length [m1, m2]]")
  case True
  then have "mset (ord (map fst [m1, m2])) = mset [0, Suc 0]" by (simp add: upt_rec)
  then have "ord (map fst [m1, m2]) = [0, Suc 0] \<or> ord (map fst [m1, m2]) = [Suc 0, 0]"
    by (rule perm_two)
  then show ?thesis using True by (auto simp: enum_members_def Let_def)
next
  case False
  then show ?thesis by (simp add: enum_members_def)
qed

lemma reorder_members_map: "reorder_members ord ms = map (\<lambda>(k, v). (k, reorder ord v)) ms"
  by (induction ms rule: list.induct) auto

lemma reorder_elems_map: "reorder_elems ord xs = map (reorder ord) xs"
  by (induction xs) auto

lemma size_list_perm:
  assumes "mset xs = mset ys"
  shows "size_list f xs = size_list f ys"
proof -
  have "sum_list (map f xs) = sum_list (map f ys)"
    using assms by (metis mset_map sum_mset_sum_list)
  moreover have "length xs = length ys" using assms by (metis size_mset)
  ultimately show ?thesis by (simp add: size_list_conv_sum_list)
qed

lemma size_enum_members [simp]: "size (JMap (enum_members ord ms)) = size (JMap ms)"
  using size_list_perm [OF mset_enum_members [of ord ms]] by simp

lemma distinct_keys_enum_members [simp]:
  "distinct (map fst (enum_members ord ms)) \<longleftrightarrow> distinct (map fst ms)"
  by (rule mset_eq_imp_distinct_iff) (simp only: mset_map mset_enum_members)

lemma members_depth_le: "members_depth ms \<le> n \<longleftrightarrow> (\<forall>(k, v) \<in> set ms. json_depth v \<le> n)"
  by (induction ms) auto

lemma members_depth_enum_members [simp]: "members_depth (enum_members ord ms) = members_depth ms"
proof -
  have "members_depth (enum_members ord ms) \<le> n \<longleftrightarrow> members_depth ms \<le> n" for n
    by (simp add: members_depth_le)
  then show ?thesis by (meson le_antisym order_refl)
qed

lemma reorder_depth:
  "json_depth (reorder ord v) = json_depth v"
  "members_depth (reorder_members ord ms) = members_depth ms"
  "elems_depth (reorder_elems ord xs) = elems_depth xs"
  by (induction v and ms and xs rule: json_induct) simp_all

lemma reorder_wf:
  "wf_json v \<Longrightarrow> wf_json (reorder ord v)"
  "wf_members ms \<Longrightarrow> wf_members (reorder_members ord ms)"
  "wf_elems xs \<Longrightarrow> wf_elems (reorder_elems ord xs)"
proof (induction v and ms and xs rule: json_induct)
  case (Map ms)
  have "map fst (reorder_members ord ms) = map fst ms" by (simp add: reorder_members_map comp_def case_prod_beta)
  then show ?case using Map by (simp add: wf_members_iff [of "enum_members ord _"] wf_members_iff [of "reorder_members ord ms"])
qed simp_all

end
