(* ===== verification/Serializer.thy ===== *)
theory Serializer
  imports Yajl_Gen Map_Order
begin

text \<open>
  \<open>generate_json\<close> of \<open>src/program.cpp\<close> (lines 170-218): a recursive walk of
  the tree that calls one generator primitive per token and returns the first
  status that is not \<open>yajl_gen_status_ok\<close>.  The two range-for loops over a
  map's members and an array's elements are \<open>generate_members\<close> and
  \<open>generate_elems\<close>; the map loop visits the members in the map's enumeration
  order \<open>enum_members ord\<close>, so the walk is a \<open>function\<close> whose termination
  rests on that order being a permutation (\<open>size_list_perm\<close>).

  \<open>generate_tree\<close> is the reference walk that takes every member list in
  the order it is stored.  \<open>generate_json_reorder\<close> shows that the program's
  walk is the reference walk of the tree as the program enumerates it
  (\<open>reorder ord v\<close>), so the facts proved once for \<open>generate_tree\<close> (output,
  depth bound, early return) hold for every enumeration order.
\<close>

fun generate_tree :: "yajl_gen \<Rightarrow> json_data \<Rightarrow> yajl_gen_status \<times> yajl_gen"
and generate_tree_members :: "yajl_gen \<Rightarrow> (bytes \<times> json_data) list \<Rightarrow> yajl_gen_status \<times> yajl_gen"
and generate_tree_elems :: "yajl_gen \<Rightarrow> json_data list \<Rightarrow> yajl_gen_status \<times> yajl_gen" where
  "generate_tree g JNull = yajl_gen_null g"
| "generate_tree g (JBoolean b) = yajl_gen_bool b g"
| "generate_tree g (JInteger i) = yajl_gen_integer i g"
| "generate_tree g (JReal r) = yajl_gen_double r g"
| "generate_tree g (JString s) = yajl_gen_string s g"
| "generate_tree g (JMap ms) =
     (case yajl_gen_map_open g of
        (st, g1) \<Rightarrow>
          if st \<noteq> yajl_gen_status_ok then (st, g1)
          else (case generate_tree_members g1 ms of
                  (st2, g2) \<Rightarrow> if st2 \<noteq> yajl_gen_status_ok then (st2, g2) else yajl_gen_map_close g2))"
| "generate_tree g (JArray xs) =
     (case yajl_gen_array_open g of
        (st, g1) \<Rightarrow>
          if st \<noteq> yajl_gen_status_ok then (st, g1)
          else (case generate_tree_elems g1 xs of
                  (st2, g2) \<Rightarrow> if st2 \<noteq> yajl_gen_status_ok then (st2, g2) else yajl_gen_array_close g2))"
| "generate_tree_members g [] = (yajl_gen_status_ok, g)"
| "generate_tree_members g ((k, v) # ms) =
     (case yajl_gen_string k g of
        (st, g1) \<Rightarrow>
          if st \<noteq> yajl_gen_status_ok then (st, g1)
          else (case generate_tree g1 v of
                  (st2, g2) \<Rightarrow> if st2 \<noteq> yajl_gen_status_ok then (st2, g2) else generate_tree_members g2 ms))"
| "generate_tree_elems g [] = (yajl_gen_status_ok, g)"
| "generate_tree_elems g (x # xs) =
     (case generate_tree g x of
        (st, g1) \<Rightarrow> if st \<noteq> yajl_gen_status_ok then (st, g1) else generate_tree_elems g1 xs)"

function generate_json :: "map_order \<Rightarrow> yajl_gen \<Rightarrow> json_data \<Rightarrow> yajl_gen_status \<times> yajl_gen"
and generate_members :: "map_order \<Rightarrow> yajl_gen \<Rightarrow> (bytes \<times> json_data) list \<Rightarrow> yajl_gen_status \<times> yajl_gen"
and generate_elems :: "map_order \<Rightarrow> yajl_gen \<Rightarrow> json_data list \<Rightarrow> yajl_gen_status \<times> yajl_gen" where
  "generate_json ord g JNull = yajl_gen_null g"
| "generate_json ord g (JBoolean b) = yajl_gen_bool b g"
| "generate_json ord g (JInteger i) = yajl_gen_integer i g"
| "generate_json ord g (JReal r) = yajl_gen_double r g"
| "generate_json ord g (JString s) = yajl_gen_string s g"
| "generate_json ord g (JMap ms) =
     (case yajl_gen_map_open g of
        (st, g1) \<Rightarrow>
          if st \<noteq> yajl_gen_status_ok then (st, g1)
          else (case generate_members ord g1 (enum_members ord ms) of
                  (st2, g2) \<Rightarrow> if st2 \<noteq> yajl_gen_status_ok then (st2, g2) else yajl_gen_map_close g2))"
| "generate_json ord g (JArray xs) =
     (case yajl_gen_array_open g of
        (st, g1) \<Rightarrow>
          if st \<noteq> yajl_gen_status_ok then (st, g1)
          else (case generate_elems ord g1 xs of
                  (st2, g2) \<Rightarrow> if st2 \<noteq> yajl_gen_status_ok then (st2, g2) else yajl_gen_array_close g2))"
| "generate_members ord g [] = (yajl_gen_status_ok, g)"
| "generate_members ord g ((k, v) # ms) =
     (case yajl_gen_string k g of
        (st, g1) \<Rightarrow>
          if st \<noteq> yajl_gen_status_ok then (st, g1)
          else (case generate_json ord g1 v of
                  (st2, g2) \<Rightarrow> if st2 \<noteq> yajl_gen_status_ok then (st2, g2) else generate_members ord g2 ms))"
| "generate_elems ord g [] = (yajl_gen_status_ok, g)"
| "generate_elems ord g (x # xs) =
     (case generate_json ord g x of
        (st, g1) \<Rightarrow> if st \<noteq> yajl_gen_status_ok then (st, g1) else generate_elems ord g1 xs)"
  by pat_completeness auto
termination
  by (relation "measure (\<lambda>x. case x of
        Inl (_, _, v) \<Rightarrow> 2 * size v + 1
      | Inr (Inl (_, _, ms)) \<Rightarrow> 2 * size (JMap ms)
      | Inr (Inr (_, _, xs)) \<Rightarrow> 2 * size (JArray xs))")
     (auto simp: size_list_perm [OF mset_enum_members])

lemma early_return:
  "fst r \<noteq> yajl_gen_status_ok \<Longrightarrow>
     (case r of (st, g) \<Rightarrow> if st \<noteq> yajl_gen_status_ok then (st, g) else f g) = r"
  by (cases r) simp

lemma generate_ok:
  "\<And>g. expects_value g \<Longrightarrow> json_depth v + length (gen_ctx g) < gen_max_depth g \<Longrightarrow>
     generate_tree g v = (yajl_gen_status_ok,
       g\<lparr>gen_ctx := after_value (gen_ctx g), gen_complete := (gen_ctx g = []), gen_out := gen_out g @ events_of v\<rparr>)"
  "\<And>g cs. gen_ctx g = GMapKey # cs \<Longrightarrow> \<not> gen_complete g \<Longrightarrow>
     members_depth ms + length (gen_ctx g) < gen_max_depth g \<Longrightarrow>
     generate_tree_members g ms = (yajl_gen_status_ok, g\<lparr>gen_out := gen_out g @ events_members ms\<rparr>)"
  "\<And>g cs. gen_ctx g = GArray # cs \<Longrightarrow> \<not> gen_complete g \<Longrightarrow>
     elems_depth xs + length (gen_ctx g) < gen_max_depth g \<Longrightarrow>
     generate_tree_elems g xs = (yajl_gen_status_ok, g\<lparr>gen_out := gen_out g @ events_elems xs\<rparr>)"
proof (induction v and ms and xs rule: json_induct)
  case (Map ms)
  let ?g1 = "g\<lparr>gen_ctx := GMapKey # after_value (gen_ctx g), gen_out := gen_out g @ [EvStartMap]\<rparr>"
  have o: "yajl_gen_map_open g = (yajl_gen_status_ok, ?g1)"
    using Map.prems by (simp add: yajl_gen_map_open_def gen_open_ok)
  have "\<not> gen_complete g" using Map.prems(1) by (simp add: expects_value_def)
  then have m: "generate_tree_members ?g1 ms = (yajl_gen_status_ok, ?g1\<lparr>gen_out := gen_out ?g1 @ events_members ms\<rparr>)"
    using Map.IH [of ?g1 "after_value (gen_ctx g)"] Map.prems(2) by simp
  show ?case
    using o m \<open>\<not> gen_complete g\<close> by (simp add: yajl_gen_map_close_def gen_close_ok)
next
  case (Array xs)
  let ?g1 = "g\<lparr>gen_ctx := GArray # after_value (gen_ctx g), gen_out := gen_out g @ [EvStartArray]\<rparr>"
  have o: "yajl_gen_array_open g = (yajl_gen_status_ok, ?g1)"
    using Array.prems by (simp add: yajl_gen_array_open_def gen_open_ok)
  have "\<not> gen_complete g" using Array.prems(1) by (simp add: expects_value_def)
  then have m: "generate_tree_elems ?g1 xs = (yajl_gen_status_ok, ?g1\<lparr>gen_out := gen_out ?g1 @ events_elems xs\<rparr>)"
    using Array.IH [of ?g1 "after_value (gen_ctx g)"] Array.prems(2) by simp
  show ?case
    using o m \<open>\<not> gen_complete g\<close> by (simp add: yajl_gen_array_close_def gen_close_ok)
next
  case (MCons k v ms)
  let ?g1 = "g\<lparr>gen_ctx := GMapVal # cs, gen_out := gen_out g @ [EvMapKey k]\<rparr>"
  have s: "yajl_gen_string k g = (yajl_gen_status_ok, ?g1)"
    using MCons.prems by (simp add: yajl_gen_string_def)
  have "expects_value ?g1" using MCons.prems(2) by (simp add: expects_value_def)
  then have v: "generate_tree ?g1 v = (yajl_gen_status_ok,
      g\<lparr>gen_ctx := GMapKey # cs, gen_out := gen_out g @ EvMapKey k # events_of v\<rparr>)"
    using MCons.IH(1) [of ?g1] MCons.prems by simp
  have "generate_tree_members (g\<lparr>gen_ctx := GMapKey # cs, gen_out := gen_out g @ EvMapKey k # events_of v\<rparr>) ms =
      (yajl_gen_status_ok, g\<lparr>gen_out := gen_out g @ EvMapKey k # events_of v @ events_members ms\<rparr>)"
    using MCons.IH(2) [of "g\<lparr>gen_ctx := GMapKey # cs, gen_out := gen_out g @ EvMapKey k # events_of v\<rparr>" cs]
      MCons.prems by simp
  with s v show ?case using MCons.prems(1) by simp
next
  case (ECons x xs)
  have "expects_value g" using ECons.prems(1,2) by (simp add: expects_value_def)
  then have x: "generate_tree g x = (yajl_gen_status_ok, g\<lparr>gen_out := gen_out g @ events_of x\<rparr>)"
    using ECons.IH(1) [of g] ECons.prems by simp
  have "generate_tree_elems (g\<lparr>gen_out := gen_out g @ events_of x\<rparr>) xs =
      (yajl_gen_status_ok, g\<lparr>gen_out := gen_out g @ events_of x @ events_elems xs\<rparr>)"
    using ECons.IH(2) [of "g\<lparr>gen_out := gen_out g @ events_of x\<rparr>" cs] ECons.prems by simp
  with x show ?case by simp
qed (simp_all add: yajl_gen_null_def yajl_gen_bool_def yajl_gen_integer_def yajl_gen_double_def
       gen_atom_ok gen_string_value_ok)

lemma generate_exceeded:
  "\<And>g. expects_value g \<Longrightarrow> length (gen_ctx g) < gen_max_depth g \<Longrightarrow>
     gen_max_depth g \<le> json_depth v + length (gen_ctx g) \<Longrightarrow>
     fst (generate_tree g v) = yajl_max_depth_exceeded \<and>
     (\<exists>pre. gen_out (snd (generate_tree g v)) = gen_out g @ pre \<and> strict_prefix pre (events_of v))"
  "\<And>g cs. gen_ctx g = GMapKey # cs \<Longrightarrow> \<not> gen_complete g \<Longrightarrow> length (gen_ctx g) < gen_max_depth g \<Longrightarrow>
     gen_max_depth g \<le> members_depth ms + length (gen_ctx g) \<Longrightarrow>
     fst (generate_tree_members g ms) = yajl_max_depth_exceeded \<and>
     (\<exists>pre. gen_out (snd (generate_tree_members g ms)) = gen_out g @ pre \<and> strict_prefix pre (events_members ms))"
  "\<And>g cs. gen_ctx g = GArray # cs \<Longrightarrow> \<not> gen_complete g \<Longrightarrow> length (gen_ctx g) < gen_max_depth g \<Longrightarrow>
     gen_max_depth g \<le> elems_depth xs + length (gen_ctx g) \<Longrightarrow>
     fst (generate_tree_elems g xs) = yajl_max_depth_exceeded \<and>
     (\<exists>pre. gen_out (snd (generate_tree_elems g xs)) = gen_out g @ pre \<and> strict_prefix pre (events_elems xs))"
proof (induction v and ms and xs rule: json_induct)
  case (Map ms)
  show ?case
  proof (cases "gen_max_depth g \<le> Suc (length (gen_ctx g))")
    case True
    with Map.prems(1) show ?thesis by (simp add: yajl_gen_map_open_def gen_open_exceeded)
  next
    case False
    let ?g1 = "g\<lparr>gen_ctx := GMapKey # after_value (gen_ctx g), gen_out := gen_out g @ [EvStartMap]\<rparr>"
    have o: "yajl_gen_map_open g = (yajl_gen_status_ok, ?g1)"
      using Map.prems(1) False by (simp add: yajl_gen_map_open_def gen_open_ok)
    have "\<not> gen_complete g" using Map.prems(1) by (simp add: expects_value_def)
    then obtain pre where "fst (generate_tree_members ?g1 ms) = yajl_max_depth_exceeded"
        "gen_out (snd (generate_tree_members ?g1 ms)) = gen_out ?g1 @ pre" "strict_prefix pre (events_members ms)"
      using Map.IH [of ?g1 "after_value (gen_ctx g)"] Map.prems(3) False by auto
    with o show ?thesis
      by (auto simp: early_return intro!: exI [of _ "EvStartMap # pre"] strict_prefix_append_right)
  qed
next
  case (Array xs)
  show ?case
  proof (cases "gen_max_depth g \<le> Suc (length (gen_ctx g))")
    case True
    with Array.prems(1) show ?thesis by (simp add: yajl_gen_array_open_def gen_open_exceeded)
  next
    case False
    let ?g1 = "g\<lparr>gen_ctx := GArray # after_value (gen_ctx g), gen_out := gen_out g @ [EvStartArray]\<rparr>"
    have o: "yajl_gen_array_open g = (yajl_gen_status_ok, ?g1)"
      using Array.prems(1) False by (simp add: yajl_gen_array_open_def gen_open_ok)
    have "\<not> gen_complete g" using Array.prems(1) by (simp add: expects_value_def)
    then obtain pre where "fst (generate_tree_elems ?g1 xs) = yajl_max_depth_exceeded"
        "gen_out (snd (generate_tree_elems ?g1 xs)) = gen_out ?g1 @ pre" "strict_prefix pre (events_elems xs)"
      using Array.IH [of ?g1 "after_value (gen_ctx g)"] Array.prems(3) False by auto
    with o show ?thesis
      by (auto simp: early_return intro!: exI [of _ "EvStartArray # pre"] strict_prefix_append_right)
  qed
next
  case (MCons k v ms)
  let ?g1 = "g\<lparr>gen_ctx := GMapVal # cs, gen_out := gen_out g @ [EvMapKey k]\<rparr>"
  have s: "yajl_gen_string k g = (yajl_gen_status_ok, ?g1)"
    using MCons.prems by (simp add: yajl_gen_string_def)
  have ev: "expects_value ?g1" using MCons.prems(2) by (simp add: expects_value_def)
  show ?case
  proof (cases "gen_max_depth g \<le> json_depth v + length (gen_ctx g)")
    case True
    then obtain pre where "fst (generate_tree ?g1 v) = yajl_max_depth_exceeded"
        "gen_out (snd (generate_tree ?g1 v)) = gen_out ?g1 @ pre" "strict_prefix pre (events_of v)"
      using MCons.IH(1) [OF ev] MCons.prems by auto
    with s show ?thesis
      by (auto simp: early_return intro!: exI [of _ "EvMapKey k # pre"] strict_prefix_append_right)
  next
    case False
    let ?g2 = "g\<lparr>gen_ctx := GMapKey # cs, gen_out := gen_out g @ EvMapKey k # events_of v\<rparr>"
    have v: "generate_tree ?g1 v = (yajl_gen_status_ok, ?g2)"
      using generate_ok(1) [OF ev] False MCons.prems(1,2) by simp
    have "fst (generate_tree_members ?g2 ms) = yajl_max_depth_exceeded \<and>
        (\<exists>pre. gen_out (snd (generate_tree_members ?g2 ms)) = gen_out ?g2 @ pre \<and> strict_prefix pre (events_members ms))"
      using MCons.IH(2) [of ?g2 cs] MCons.prems False by simp
    then obtain pre where "fst (generate_tree_members ?g2 ms) = yajl_max_depth_exceeded"
        "gen_out (snd (generate_tree_members ?g2 ms)) = gen_out ?g2 @ pre" "strict_prefix pre (events_members ms)"
      by blast
    with s v show ?thesis
      by (auto simp: early_return intro!: exI [of _ "EvMapKey k # events_of v @ pre"])
  qed
next
  case (ECons x xs)
  have ev: "expects_value g" using ECons.prems(1,2) by (simp add: expects_value_def)
  show ?case
  proof (cases "gen_max_depth g \<le> json_depth x + length (gen_ctx g)")
    case True
    then obtain pre where "fst (generate_tree g x) = yajl_max_depth_exceeded"
        "gen_out (snd (generate_tree g x)) = gen_out g @ pre" "strict_prefix pre (events_of x)"
      using ECons.IH(1) [OF ev] ECons.prems by auto
    then show ?thesis
      by (auto simp: early_return intro!: exI [of _ pre] strict_prefix_append_right)
  next
    case False
    have x: "generate_tree g x = (yajl_gen_status_ok, g\<lparr>gen_out := gen_out g @ events_of x\<rparr>)"
      using generate_ok(1) [OF ev] False ECons.prems(1,2) by simp
    have "fst (generate_tree_elems (g\<lparr>gen_out := gen_out g @ events_of x\<rparr>) xs) = yajl_max_depth_exceeded \<and>
        (\<exists>pre. gen_out (snd (generate_tree_elems (g\<lparr>gen_out := gen_out g @ events_of x\<rparr>) xs)) =
           gen_out g @ events_of x @ pre \<and> strict_prefix pre (events_elems xs))"
      using ECons.IH(2) [of "g\<lparr>gen_out := gen_out g @ events_of x\<rparr>" cs] ECons.prems False by simp
    then obtain pre where "fst (generate_tree_elems (g\<lparr>gen_out := gen_out g @ events_of x\<rparr>) xs) = yajl_max_depth_exceeded"
        "gen_out (snd (generate_tree_elems (g\<lparr>gen_out := gen_out g @ events_of x\<rparr>) xs)) = gen_out g @ events_of x @ pre"
        "strict_prefix pre (events_elems xs)"
      by blast
    with x show ?thesis by (auto intro!: exI [of _ "events_of x @ pre"])
  qed
qed simp_all

lemma reorder_enum_members:
  "reorder_members ord (enum_members ord ms) = enum_members ord (reorder_members ord ms)"
  by (simp add: reorder_members_map enum_members_map_values)

lemma generate_json_reorder:
  "generate_json ord g v = generate_tree g (reorder ord v)"
  "generate_members ord g ms = generate_tree_members g (reorder_members ord ms)"
  "generate_elems ord g xs = generate_tree_elems g (reorder_elems ord xs)"
proof (induction ord g v and ord g ms and ord g xs rule: generate_json_generate_members_generate_elems.induct)
  case (6 ord g ms)
  then show ?case by (auto simp: reorder_enum_members split: prod.splits)
next
  case (7 ord g xs)
  then show ?case by (auto split: prod.splits)
next
  case (9 ord g k v ms)
  then show ?case by (auto split: prod.splits)
next
  case (11 ord g x xs)
  then show ?case by (auto split: prod.splits)
qed simp_all

lemma json_depth_nest: "json_depth (nest n) = Suc n"
  by (induction n) simp_all

lemma expects_value_alloc [simp]: "expects_value yajl_gen_alloc"
  by (simp add: expects_value_def yajl_gen_alloc_def)

lemma gen_alloc_fields [simp]:
  "gen_ctx yajl_gen_alloc = []" "gen_complete yajl_gen_alloc = False"
  "gen_out yajl_gen_alloc = []" "gen_max_depth yajl_gen_alloc = yajl_max_depth"
  by (simp_all add: yajl_gen_alloc_def)

subsection \<open>Properties of the serializer\<close>

text \<open>
  C9.  Serializing a document whose nesting depth is below the generator's
  bound succeeds, whatever order the maps enumerate their members in: every
  primitive returns \<open>yajl_gen_status_ok\<close>, the generator ends complete, and its
  output is the token stream of the document with each map's members in
  enumeration order.
\<close>

theorem generate_json_alloc:
  "json_depth v < yajl_max_depth \<Longrightarrow>
     generate_json ord yajl_gen_alloc v =
       (yajl_gen_status_ok, yajl_gen_alloc\<lparr>gen_complete := True, gen_out := events_of (reorder ord v)\<rparr>)"
  using generate_ok(1) [of yajl_gen_alloc "reorder ord v"]
  by (simp add: generate_json_reorder reorder_depth yajl_gen_alloc_def expects_value_def)

theorem generate_json_alloc_witness:
  "json_depth (JMap [(''a'', JInteger 1), (''b'', JArray [JBoolean True, JNull, JString ''x''])]) < yajl_max_depth \<and>
   generate_json (\<lambda>ks. rev [0..<length ks]) yajl_gen_alloc
     (JMap [(''a'', JInteger 1), (''b'', JArray [JBoolean True, JNull, JString ''x''])]) =
     (yajl_gen_status_ok, yajl_gen_alloc\<lparr>gen_complete := True,
        gen_out := [EvStartMap, EvMapKey ''b'', EvStartArray, EvBoolean True, EvNull, EvString ''x'',
                    EvEndArray, EvMapKey ''a'', EvInteger 1, EvEndMap]\<rparr>)"
proof -
  have h: "json_depth (JMap [(''a'', JInteger 1), (''b'', JArray [JBoolean True, JNull, JString ''x''])]) < yajl_max_depth"
    by (simp add: yajl_max_depth_def)
  show ?thesis
    using h generate_json_alloc [OF h, of "\<lambda>ks. rev [0..<length ks]"]
    by (simp add: enum_members_def)
qed

text \<open>
  C10.  Serializing a document nested as deep as the generator's bound or deeper
  fails, in any enumeration order: \<open>generate_json\<close> returns
  \<open>yajl_max_depth_exceeded\<close> (it stops at the first container it cannot open).
  With the bundled bound of 128, the specification's array nested 1000 deep
  cannot be serialized.
\<close>

theorem generate_json_depth_exceeded:
  "yajl_max_depth \<le> json_depth v \<Longrightarrow> fst (generate_json ord yajl_gen_alloc v) = yajl_max_depth_exceeded"
  using generate_exceeded(1) [of yajl_gen_alloc "reorder ord v"]
  by (simp add: generate_json_reorder reorder_depth yajl_max_depth_def yajl_gen_alloc_def expects_value_def)

theorem generate_json_depth_exceeded_witness:
  "yajl_max_depth \<le> json_depth (nest 999) \<and>
   fst (generate_json insertion_order yajl_gen_alloc (nest 999)) = yajl_max_depth_exceeded"
proof -
  have h: "yajl_max_depth \<le> json_depth (nest 999)"
    by (simp add: json_depth_nest yajl_max_depth_def)
  show ?thesis using h generate_json_depth_exceeded [OF h] by simp
qed

end
