(* ===== verification/Read_Loop.thy ===== *)
theory Read_Loop
  imports Prelude
begin

text \<open>
  The input loop of \<open>main\<close>: the whole input is read into a
  \<open>std::vector<unsigned char>\<close> in chunks of \<open>READ_BUFSIZE\<close> bytes, each
  \<open>fread\<close> writing at \<open>buf.data() + fullSize\<close>, and the vector is resized to
  \<open>capacity() + READ_BUFSIZE\<close> after every read.  The stream is the list of
  what the successive \<open>fread\<close> calls return (a chunk shorter than
  \<open>READ_BUFSIZE\<close>, or no chunk at all, is end of input).  How a resize grows the
  capacity is the library's choice; it is a parameter \<open>grow\<close> (old size,
  requested size \<mapsto> new capacity), with the libstdc++ policy as an instance.
  A read that could write past the end of the vector is \<open>None\<close>.
\<close>

type_synonym byte = "8 word"

definition READ_BUFSIZE :: nat where
  "READ_BUFSIZE = 4096"

record read_buf =
  buf :: "byte list"
  buf_cap :: nat
  fullSize :: nat
  readed :: nat

text \<open>\<open>std::vector<unsigned char> buf(READ_BUFSIZE); readed = READ_BUFSIZE; fullSize = 0\<close>.\<close>

definition read_init :: read_buf where
  "read_init = \<lparr>buf = replicate READ_BUFSIZE 0, buf_cap = READ_BUFSIZE, fullSize = 0, readed = READ_BUFSIZE\<rparr>"

text \<open>\<open>std::vector::resize(n)\<close>: value-initialised new elements; the capacity grows only when \<open>n\<close> exceeds it.\<close>

definition vector_resize :: "(nat \<Rightarrow> nat \<Rightarrow> nat) \<Rightarrow> nat \<Rightarrow> read_buf \<Rightarrow> read_buf" where
  "vector_resize grow n rb =
     rb\<lparr>buf := take n (buf rb) @ replicate (n - length (buf rb)) 0,
        buf_cap := (if n \<le> buf_cap rb then buf_cap rb else grow (length (buf rb)) n)\<rparr>"

text \<open>The libstdc++ growth policy: the size plus the larger of the size and the increase.\<close>

definition libstdcxx_grow :: "nat \<Rightarrow> nat \<Rightarrow> nat" where
  "libstdcxx_grow s n = s + max s (n - s)"

text \<open>One iteration of the loop body, with the chunk \<open>fread\<close> returns.\<close>

definition read_step :: "(nat \<Rightarrow> nat \<Rightarrow> nat) \<Rightarrow> byte list \<Rightarrow> read_buf \<Rightarrow> read_buf option" where
  "read_step grow c rb =
     (if length (buf rb) < fullSize rb + READ_BUFSIZE then None
      else let rb1 = rb\<lparr>buf := take (fullSize rb) (buf rb) @ c @ drop (fullSize rb + length c) (buf rb),
                        readed := length c, fullSize := fullSize rb + length c\<rparr>
           in Some (vector_resize grow (buf_cap rb1 + READ_BUFSIZE) rb1))"

text \<open>\<open>while (readed == READ_BUFSIZE) { ... }\<close>; with no chunk left, \<open>fread\<close> returns nothing.\<close>

fun read_loop :: "(nat \<Rightarrow> nat \<Rightarrow> nat) \<Rightarrow> byte list list \<Rightarrow> read_buf \<Rightarrow> read_buf option" where
  "read_loop grow [] rb = (if readed rb = READ_BUFSIZE then read_step grow [] rb else Some rb)"
| "read_loop grow (c # cs) rb =
     (if readed rb = READ_BUFSIZE
      then (case read_step grow c rb of None \<Rightarrow> None | Some rb' \<Rightarrow> read_loop grow cs rb')
      else Some rb)"

text \<open>
  The same loop over an unbounded source: \<open>s i\<close> is what the \<open>i\<close>-th \<open>fread\<close>
  returns (an empty chunk once the source is exhausted; a source that never
  ends, a pipe or a device, gives full chunks forever).  The loop need not
  end, so it is a \<open>partial_function\<close> in the option monad, \<open>None\<close> when it
  does not return (or when a read could write past the vector, as above).
\<close>

partial_function (option) read_loop_from ::
  "(nat \<Rightarrow> nat \<Rightarrow> nat) \<Rightarrow> (nat \<Rightarrow> byte list) \<Rightarrow> nat \<Rightarrow> read_buf \<Rightarrow> read_buf option" where
  "read_loop_from grow s i rb =
     (if readed rb = READ_BUFSIZE
      then (case read_step grow (s i) rb of None \<Rightarrow> None | Some rb' \<Rightarrow> read_loop_from grow s (Suc i) rb')
      else Some rb)"

text \<open>The bytes of the stream up to and including the first short chunk.\<close>

fun stream_text :: "byte list list \<Rightarrow> byte list" where
  "stream_text [] = []"
| "stream_text (c # cs) = (if length c = READ_BUFSIZE then c @ stream_text cs else c)"

text \<open>The length of the last \<open>fread\<close> result: that of the first short chunk, 0 at end of input.\<close>

fun last_read :: "byte list list \<Rightarrow> nat" where
  "last_read [] = 0"
| "last_read (c # cs) = (if length c = READ_BUFSIZE then last_read cs else length c)"

text \<open>The loop invariant: the next read fits, and the size never exceeds the capacity.\<close>

definition read_inv :: "read_buf \<Rightarrow> bool" where
  "read_inv rb \<longleftrightarrow> fullSize rb \<le> length (buf rb) \<and> length (buf rb) \<le> buf_cap rb \<and>
     (readed rb = READ_BUFSIZE \<longrightarrow> fullSize rb + READ_BUFSIZE \<le> length (buf rb))"

lemma read_step_inv:
  assumes inv: "read_inv rb" and go: "readed rb = READ_BUFSIZE" and c: "length c \<le> READ_BUFSIZE"
    and grow: "\<forall>s n. n \<le> grow s n"
  shows "\<exists>rb'. read_step grow c rb = Some rb' \<and> read_inv rb' \<and>
           take (fullSize rb') (buf rb') = take (fullSize rb) (buf rb) @ c \<and>
           fullSize rb' = fullSize rb + length c \<and> readed rb' = length c"
proof -
  from inv go have fit: "fullSize rb + READ_BUFSIZE \<le> length (buf rb)" and cap: "length (buf rb) \<le> buf_cap rb"
    by (simp_all add: read_inv_def)
  define b1 where "b1 = take (fullSize rb) (buf rb) @ c @ drop (fullSize rb + length c) (buf rb)"
  have len1: "length b1 = length (buf rb)" using fit c by (simp add: b1_def)
  let ?n = "buf_cap rb + READ_BUFSIZE"
  have grows: "length b1 < ?n" using len1 cap by (simp add: READ_BUFSIZE_def)
  define rb' where "rb' = rb\<lparr>buf := b1 @ replicate (?n - length b1) 0,
      buf_cap := grow (length b1) ?n, readed := length c, fullSize := fullSize rb + length c\<rparr>"
  have "read_step grow c rb =
      Some (vector_resize grow ?n (rb\<lparr>buf := b1, readed := length c, fullSize := fullSize rb + length c\<rparr>))"
    using fit by (simp add: read_step_def Let_def not_less b1_def)
  also have "\<dots> = Some rb'"
    using grows by (simp add: vector_resize_def rb'_def READ_BUFSIZE_def)
  finally have step: "read_step grow c rb = Some rb'" .
  have "length (buf rb') = ?n" using grows by (simp add: rb'_def)
  moreover have "?n \<le> buf_cap rb'" using grow by (simp add: rb'_def)
  moreover have "fullSize rb' + READ_BUFSIZE \<le> length (buf rb')"
    using grows len1 fit c cap by (simp add: rb'_def READ_BUFSIZE_def)
  ultimately have "read_inv rb'" by (simp add: read_inv_def)
  moreover have "take (fullSize rb') (buf rb') = take (fullSize rb) (buf rb) @ c"
    using fit c len1 by (simp add: rb'_def b1_def)
  ultimately show ?thesis using step by (simp add: rb'_def)
qed

lemma read_loop_ok:
  assumes "read_inv rb" "\<forall>c \<in> set cs. length c \<le> READ_BUFSIZE" "\<forall>s n. n \<le> grow s n"
  shows "\<exists>rb'. read_loop grow cs rb = Some rb' \<and> read_inv rb' \<and> readed rb' \<noteq> READ_BUFSIZE \<and>
           readed rb' = (if readed rb = READ_BUFSIZE then last_read cs else readed rb) \<and>
           take (fullSize rb') (buf rb') =
             take (fullSize rb) (buf rb) @ (if readed rb = READ_BUFSIZE then stream_text cs else [])"
  using assms(1,2)
proof (induction cs arbitrary: rb)
  case Nil
  show ?case
  proof (cases "readed rb = READ_BUFSIZE")
    case True
    with read_step_inv [OF Nil.prems(1) True _ assms(3), of "[]"] show ?thesis
      by (auto simp: READ_BUFSIZE_def)
  next
    case False
    with Nil.prems show ?thesis by simp
  qed
next
  case (Cons c cs)
  show ?case
  proof (cases "readed rb = READ_BUFSIZE")
    case True
    from Cons.prems(2) have c: "length c \<le> READ_BUFSIZE" by simp
    from read_step_inv [OF Cons.prems(1) True c assms(3)] obtain rb1 where
      step: "read_step grow c rb = Some rb1" and inv1: "read_inv rb1"
      and content: "take (fullSize rb1) (buf rb1) = take (fullSize rb) (buf rb) @ c"
      and rd: "readed rb1 = length c"
      by blast
    show ?thesis
    proof (cases "length c = READ_BUFSIZE")
      case full: True
      from Cons.IH [OF inv1] Cons.prems(2) obtain rb' where
        "read_loop grow cs rb1 = Some rb'" "read_inv rb'" "readed rb' \<noteq> READ_BUFSIZE"
        "readed rb' = last_read cs"
        "take (fullSize rb') (buf rb') = take (fullSize rb1) (buf rb1) @ stream_text cs"
        using rd full by auto
      with True step content full show ?thesis by simp
    next
      case short: False
      then have "read_loop grow cs rb1 = Some rb1" using rd by (cases cs) simp_all
      with True step content short rd inv1 show ?thesis by simp
    qed
  next
    case False
    with Cons.prems show ?thesis by simp
  qed
qed

lemma readed_read_step: "read_step grow c rb = Some rb' \<Longrightarrow> readed rb' = length c"
  by (auto simp: read_step_def Let_def vector_resize_def split: if_splits)

text \<open>Up to a short read, the loop over the source is the loop over the list of its chunks.\<close>

lemma read_loop_from_list:
  "length (s k) < READ_BUFSIZE \<Longrightarrow> i \<le> k \<Longrightarrow>
     read_loop_from grow s i rb = read_loop grow (map s [i..<Suc k]) rb"
proof (induction "k - i" arbitrary: i rb)
  case 0
  then have i: "i = k" by simp
  show ?case
  proof (cases "readed rb = READ_BUFSIZE \<and> read_step grow (s k) rb \<noteq> None")
    case True
    then obtain rb' where st: "read_step grow (s k) rb = Some rb'" by auto
    have "read_loop_from grow s (Suc k) rb' = Some rb'"
      using readed_read_step [OF st] 0(2) i by (subst read_loop_from.simps) simp
    then show ?thesis using True st i 0(2) by (subst read_loop_from.simps) (simp add: readed_read_step [OF st])
  next
    case False
    then show ?thesis using i by (subst read_loop_from.simps) auto
  qed
next
  case (Suc n)
  then have lt: "i < k" and n: "n = k - Suc i" by simp_all
  have m: "map s [i..<Suc k] = s i # map s [Suc i..<Suc k]" using lt by (simp add: upt_conv_Cons)
  have ih: "read_loop_from grow s (Suc i) rb' = read_loop grow (map s [Suc i..<Suc k]) rb'" for rb'
    using Suc.hyps(1) [OF n] Suc.prems(1) lt by simp
  show ?case unfolding m
    by (subst read_loop_from.simps) (simp add: ih split: option.splits)
qed

text \<open>A source of full chunks only keeps the loop running: it never returns.\<close>

lemma read_loop_from_full:
  assumes full: "\<forall>j. length (s j) = READ_BUFSIZE" and ret: "read_loop_from grow s i rb = Some r"
  shows "readed rb \<noteq> READ_BUFSIZE"
proof -
  have "s = s \<longrightarrow> readed rb \<noteq> READ_BUFSIZE"
  proof (rule read_loop_from.raw_induct [where P = "\<lambda>grow s' i rb r. s' = s \<longrightarrow> readed rb \<noteq> READ_BUFSIZE",
         OF _ ret])
    fix f grow' s' i' rb' r'
    assume IH: "\<And>grow s'' i rb r. f grow s'' i rb = Some r \<Longrightarrow> s'' = s \<longrightarrow> readed rb \<noteq> READ_BUFSIZE"
      and eq: "(if readed rb' = READ_BUFSIZE
                then case read_step grow' (s' i') rb' of None \<Rightarrow> None | Some rb'' \<Rightarrow> f grow' s' (Suc i') rb''
                else Some rb') = Some r'"
    show "s' = s \<longrightarrow> readed rb' \<noteq> READ_BUFSIZE"
    proof
      assume s': "s' = s"
      show "readed rb' \<noteq> READ_BUFSIZE"
      proof
        assume go: "readed rb' = READ_BUFSIZE"
        with eq obtain rb'' where st: "read_step grow' (s' i') rb' = Some rb''"
          and rec: "f grow' s' (Suc i') rb'' = Some r'"
          by (auto split: option.splits)
        have "readed rb'' = READ_BUFSIZE" using readed_read_step [OF st] full s' by simp
        then show False using IH [OF rec] s' by simp
      qed
    qed
  qed
  then show ?thesis by simp
qed

lemma read_init_inv: "read_inv read_init"
  by (simp add: read_inv_def read_init_def)

lemma libstdcxx_grow_ge: "n \<le> libstdcxx_grow s n"
  by (simp add: libstdcxx_grow_def)

subsection \<open>Properties of the read loop\<close>

text \<open>
  C14.  Buffer safety and content of the read loop: when every \<open>fread\<close>
  returns at most \<open>READ_BUFSIZE\<close> bytes and the vector's growth honours the
  requested size, no \<open>fread\<close> can write past the end of the vector, and the
  loop ends with the first \<open>fullSize\<close> bytes of the vector equal to the whole
  input, up to and including the first short read.
\<close>

theorem read_input_safe:
  assumes "\<forall>c \<in> set cs. length c \<le> READ_BUFSIZE" "\<forall>s n. n \<le> grow s n"
  shows "\<exists>rb. read_loop grow cs read_init = Some rb \<and> fullSize rb = length (stream_text cs) \<and>
           take (fullSize rb) (buf rb) = stream_text cs"
proof -
  obtain rb where rb: "read_loop grow cs read_init = Some rb" "read_inv rb"
      "take (fullSize rb) (buf rb) = stream_text cs"
    using read_loop_ok [OF read_init_inv assms] by (auto simp: read_init_def)
  from rb(2) have "length (take (fullSize rb) (buf rb)) = fullSize rb"
    by (simp add: read_inv_def min_def)
  with rb show ?thesis by metis
qed

theorem read_input_safe_witness:
  "length (replicate 4096 (7::byte)) \<le> READ_BUFSIZE \<and> length [1, 2, 3 :: byte] \<le> READ_BUFSIZE \<and>
   (\<forall>s n. n \<le> libstdcxx_grow s n) \<and>
   (\<exists>rb. read_loop libstdcxx_grow [replicate 4096 7, [1, 2, 3]] read_init = Some rb \<and>
      fullSize rb = length (stream_text [replicate 4096 7, [1, 2, 3]]) \<and>
      take (fullSize rb) (buf rb) = stream_text [replicate 4096 7, [1, 2, 3]])"
proof -
  have h1: "\<forall>c \<in> set [replicate 4096 (7::byte), [1, 2, 3]]. length c \<le> READ_BUFSIZE"
    by (simp add: READ_BUFSIZE_def)
  have h2: "\<forall>s n. n \<le> libstdcxx_grow s n" by (simp add: libstdcxx_grow_ge)
  show ?thesis using h1 h2 read_input_safe [OF h1 h2] by (simp add: READ_BUFSIZE_def)
qed

lemma stream_text_full_prefix:
  "\<forall>j < k. length (s j) = READ_BUFSIZE \<Longrightarrow> length (s k) < READ_BUFSIZE \<Longrightarrow>
     stream_text (map s [i..<Suc k]) = concat (map s [i..<Suc k])"
proof (induction "k - i" arbitrary: i)
  case 0
  then show ?case by (cases "i \<le> k") (simp_all add: upt_conv_Cons)
next
  case (Suc n)
  then have "i < k" by simp
  then show ?case using Suc.hyps(1) [of "Suc i"] Suc.hyps(2) Suc.prems by (simp add: upt_conv_Cons)
qed

lemma last_read_full_prefix:
  "\<forall>j < k. length (s j) = READ_BUFSIZE \<Longrightarrow> length (s k) < READ_BUFSIZE \<Longrightarrow> i \<le> k \<Longrightarrow>
     last_read (map s [i..<Suc k]) = length (s k)"
proof (induction "k - i" arbitrary: i)
  case 0
  then show ?case by (simp add: upt_conv_Cons)
next
  case (Suc n)
  then have "i < k" by simp
  then show ?case using Suc.hyps(1) [of "Suc i"] Suc.hyps(2) Suc.prems by (simp add: upt_conv_Cons)
qed

text \<open>
  C32.  Termination of the read loop: on a source whose reads return at most
  \<open>READ_BUFSIZE\<close> bytes (and a growth policy that honours the requested
  size), the loop returns exactly when some read is short.  A source that
  only ever fills the buffer, such as an endless device, keeps \<open>main\<close> in the
  loop forever (while the vector grows without bound); any other source ends
  the loop, with the list model \<open>read_loop\<close> of the reads up to the first
  short one.
\<close>

theorem read_loop_from_terminates:
  assumes "\<forall>j. length (s j) \<le> READ_BUFSIZE" "\<forall>a n. n \<le> grow a n"
  shows "(\<exists>rb. read_loop_from grow s 0 read_init = Some rb) \<longleftrightarrow> (\<exists>k. length (s k) < READ_BUFSIZE)"
proof
  assume "\<exists>rb. read_loop_from grow s 0 read_init = Some rb"
  then obtain rb where ret: "read_loop_from grow s 0 read_init = Some rb" by blast
  show "\<exists>k. length (s k) < READ_BUFSIZE"
  proof (rule ccontr)
    assume "\<not> (\<exists>k. length (s k) < READ_BUFSIZE)"
    then have "\<forall>j. length (s j) = READ_BUFSIZE" using assms(1) by (simp add: not_less eq_iff)
    from read_loop_from_full [OF this ret] show False by (simp add: read_init_def)
  qed
next
  assume "\<exists>k. length (s k) < READ_BUFSIZE"
  then obtain k where k: "length (s k) < READ_BUFSIZE" by blast
  have "\<forall>c \<in> set (map s [0..<Suc k]). length c \<le> READ_BUFSIZE" using assms(1) by simp
  then obtain rb where "read_loop grow (map s [0..<Suc k]) read_init = Some rb"
    using read_loop_ok [OF read_init_inv _ assms(2)] by blast
  then show "\<exists>rb. read_loop_from grow s 0 read_init = Some rb"
    using read_loop_from_list [of s k 0 grow read_init, OF k] by simp
qed

theorem read_loop_from_terminates_witness:
  "(\<forall>j. length ((\<lambda>j::nat. if j < 2 then replicate 4096 (0::byte) else []) j) \<le> READ_BUFSIZE) \<and>
   (\<forall>j. length ((\<lambda>_::nat. replicate 4096 (0::byte)) j) \<le> READ_BUFSIZE) \<and>
   (\<forall>a n. n \<le> libstdcxx_grow a n) \<and>
   (\<exists>rb. read_loop_from libstdcxx_grow (\<lambda>j::nat. if j < 2 then replicate 4096 0 else []) 0 read_init = Some rb) \<and>
   read_loop_from libstdcxx_grow (\<lambda>_. replicate 4096 0) 0 read_init = None"
proof -
  have h1: "\<forall>j. length ((\<lambda>j::nat. if j < 2 then replicate 4096 (0::byte) else []) j) \<le> READ_BUFSIZE"
    by (simp add: READ_BUFSIZE_def)
  have h1': "\<forall>j. length ((\<lambda>_::nat. replicate 4096 (0::byte)) j) \<le> READ_BUFSIZE"
    by (simp add: READ_BUFSIZE_def)
  have h2: "\<forall>a n. n \<le> libstdcxx_grow a n" by (simp add: libstdcxx_grow_ge)
  have short: "\<exists>k. length ((\<lambda>j::nat. if j < 2 then replicate 4096 (0::byte) else []) k) < READ_BUFSIZE"
    by (rule exI [of _ "2::nat"]) (simp add: READ_BUFSIZE_def)
  have full: "\<not> (\<exists>k. length ((\<lambda>_::nat. replicate 4096 (0::byte)) k) < READ_BUFSIZE)"
    by (simp add: READ_BUFSIZE_def)
  show ?thesis
    using h1 h1' h2 read_loop_from_terminates [OF h1 h2] short
      read_loop_from_terminates [OF h1' h2] full
    by (metis option.exhaust)
qed

text \<open>
  C21.  The read loop collects the whole input: when the reads before the
  \<open>k\<close>-th are full and the \<open>k\<close>-th is short (the end of the source), the
  loop returns, after exactly those \<open>k + 1\<close> reads, with the first
  \<open>fullSize\<close> bytes of the vector the concatenation of everything read and
  \<open>readed\<close> the length of the last read.
\<close>

theorem read_loop_from_collects:
  assumes "\<forall>j. length (s j) \<le> READ_BUFSIZE" "\<forall>a n. n \<le> grow a n"
    "\<forall>j < k. length (s j) = READ_BUFSIZE" "length (s k) < READ_BUFSIZE"
  shows "\<exists>rb. read_loop_from grow s 0 read_init = Some rb \<and>
           take (fullSize rb) (buf rb) = concat (map s [0..<Suc k]) \<and> readed rb = length (s k)"
proof -
  have *: "\<forall>c \<in> set (map s [0..<Suc k]). length c \<le> READ_BUFSIZE" using assms(1) by simp
  obtain rb where rb: "read_loop grow (map s [0..<Suc k]) read_init = Some rb"
      "readed rb = last_read (map s [0..<Suc k])" "take (fullSize rb) (buf rb) = stream_text (map s [0..<Suc k])"
  proof -
    have "readed read_init = READ_BUFSIZE" "fullSize read_init = 0" by (simp_all add: read_init_def)
    then show ?thesis using that read_loop_ok [OF read_init_inv, of "map s [0..<Suc k]" grow] assms(2) *
      by auto
  qed
  moreover have "read_loop_from grow s 0 read_init = read_loop grow (map s [0..<Suc k]) read_init"
    using read_loop_from_list [of s k 0 grow read_init, OF assms(4)] by simp
  ultimately show ?thesis
    using stream_text_full_prefix [OF assms(3,4), of 0] last_read_full_prefix [OF assms(3,4), of 0] by auto
qed

theorem read_loop_from_collects_witness:
  "(\<forall>j. length ((\<lambda>j::nat. if j < 2 then replicate 4096 (0::byte) else [1]) j) \<le> READ_BUFSIZE) \<and>
   (\<forall>a n. n \<le> libstdcxx_grow a n) \<and>
   length ((\<lambda>j::nat. if j < 2 then replicate 4096 (0::byte) else [1]) 2) < READ_BUFSIZE \<and>
   (\<exists>rb. read_loop_from libstdcxx_grow (\<lambda>j::nat. if j < 2 then replicate 4096 0 else [1]) 0 read_init = Some rb \<and>
      take (fullSize rb) (buf rb) = replicate 8192 0 @ [1] \<and> readed rb = 1)"
proof -
  have h1: "\<forall>j. length ((\<lambda>j::nat. if j < 2 then replicate 4096 (0::byte) else [1]) j) \<le> READ_BUFSIZE"
    by (simp add: READ_BUFSIZE_def)
  have h2: "\<forall>a n. n \<le> libstdcxx_grow a n" by (simp add: libstdcxx_grow_ge)
  have h3: "\<forall>j < 2. length ((\<lambda>j::nat. if j < 2 then replicate 4096 (0::byte) else [1]) j) = READ_BUFSIZE"
    by (simp add: READ_BUFSIZE_def)
  have h4: "length ((\<lambda>j::nat. if j < 2 then replicate 4096 (0::byte) else [1]) 2) < READ_BUFSIZE"
    by (simp add: READ_BUFSIZE_def)
  have c: "concat (map (\<lambda>j::nat. if j < 2 then replicate 4096 (0::byte) else [1]) [0..<Suc 2]) =
           replicate 8192 0 @ [1]"
    by (simp add: upt_conv_Cons replicate_add [symmetric])
  show ?thesis using read_loop_from_collects [OF h1 h2 h3 h4] h1 h2 h3 h4 c by simp
qed

end
