(* ===== verification/Pipeline.thy ===== *)
theory Pipeline
  imports Builder Serializer Read_Loop
begin

text \<open>
  \<open>main\<close> of \<open>src/program.cpp\<close>: argument check, input opened, input read
  (\<open>read_loop\<close>), one \<open>yajl_parse\<close> over the whole text with the builder's
  callbacks followed by \<open>yajl_complete_parse\<close>, output opened, \<open>generate_json\<close>
  on the root, and the generator's buffer written.  The byte-level parser is
  outside the sources: \<open>lexer\<close> is the document the text denotes, \<open>None\<close> for a
  text yajl rejects (syntax error, trailing garbage), under the grammar with
  comments allowed and the other options of the handle off; with comments off
  (\<open>allow_comments\<close> of the handle's flags), \<open>parse_document\<close> first rejects a
  text with a slash outside its strings, as yajl's lexer does.  A callback returning 0
  makes \<open>yajl_complete_parse\<close> fail as well.  The result records the exit status
  and what is written; the output is kept as the generator's token stream.
\<close>

datatype main_result =
    MainUsage
  | MainOpenError
  | MainParseError nat
  | MainExit int "yajl_event list"
  | MainCrash

text \<open>
  \<open>MainParseError n\<close>: the error is printed by \<open>yajl_get_error\<close> with
  \<open>jsonTextLength = n\<close>, exit status 1.  \<open>MainCrash\<close>: undefined behaviour.
\<close>

text \<open>
  The options of a yajl handle (\<open>yajl_option\<close> of \<open>yajl_parse.h\<close>), all off
  after \<open>yajl_alloc\<close>, each set by \<open>yajl_config\<close>.  \<open>main\<close> makes one call,
  \<open>yajl_config(hand, yajl_allow_comments, 1)\<close>.
\<close>

datatype yajl_option =
    yajl_allow_comments
  | yajl_dont_validate_strings
  | yajl_allow_trailing_garbage
  | yajl_allow_multiple_values
  | yajl_allow_partial_values

record yajl_flags =
  allow_comments :: bool
  dont_validate_strings :: bool
  allow_trailing_garbage :: bool
  allow_multiple_values :: bool
  allow_partial_values :: bool

definition yajl_alloc_flags :: yajl_flags where
  "yajl_alloc_flags = \<lparr>allow_comments = False, dont_validate_strings = False,
     allow_trailing_garbage = False, allow_multiple_values = False, allow_partial_values = False\<rparr>"

fun yajl_config :: "yajl_option \<Rightarrow> bool \<Rightarrow> yajl_flags \<Rightarrow> yajl_flags" where
  "yajl_config yajl_allow_comments b f = f\<lparr>allow_comments := b\<rparr>"
| "yajl_config yajl_dont_validate_strings b f = f\<lparr>dont_validate_strings := b\<rparr>"
| "yajl_config yajl_allow_trailing_garbage b f = f\<lparr>allow_trailing_garbage := b\<rparr>"
| "yajl_config yajl_allow_multiple_values b f = f\<lparr>allow_multiple_values := b\<rparr>"
| "yajl_config yajl_allow_partial_values b f = f\<lparr>allow_partial_values := b\<rparr>"

text \<open>\<open>yajl_alloc(&reader_cb, nullptr, &state); yajl_config(hand, yajl_allow_comments, 1)\<close>.\<close>

definition rjson_flags :: yajl_flags where
  "rjson_flags = yajl_config yajl_allow_comments True yajl_alloc_flags"

text \<open>
  yajl's lexer with comments off: a \<open>/\<close> outside a string literal is the
  error \<open>probable comment found in input text, comments are not enabled\<close>.
  The scan walks the bytes with two flags, inside a string and just after a
  backslash in it.
\<close>

fun probable_comment :: "bool \<Rightarrow> bool \<Rightarrow> byte list \<Rightarrow> bool" where
  "probable_comment ins esc [] = False"
| "probable_comment ins esc (b # bs) =
     (if ins then
        (if esc then probable_comment True False bs
         else if b = 0x5C then probable_comment True True bs
         else if b = 0x22 then probable_comment False False bs
         else probable_comment True False bs)
      else if b = 0x2F then True
      else probable_comment (b = 0x22) False bs)"

definition parse_document ::
  "yajl_flags \<Rightarrow> (byte list \<Rightarrow> json_data option) \<Rightarrow> byte list \<Rightarrow> build_error + json_data_state option" where
  "parse_document cfg lexer text =
     (if \<not> allow_comments cfg \<and> probable_comment False False text then Inr None
      else case lexer text of
        None \<Rightarrow> Inr None
      | Some d \<Rightarrow> (case feed (events_of d) init_state of
                    Inl ClientCanceled \<Rightarrow> Inr None
                  | Inl UndefinedBehaviour \<Rightarrow> Inl UndefinedBehaviour
                  | Inr st \<Rightarrow> Inr (Some st)))"

text \<open>
  \<open>parse_document cfg\<close>, with the flags \<open>cfg\<close> of the handle: \<open>Inr None\<close> when
  \<open>yajl_complete_parse\<close> does not return
  \<open>yajl_status_ok\<close> (a text yajl rejects, or a callback that returned 0),
  \<open>Inr (Some st)\<close> with the builder state otherwise, \<open>Inl\<close> for undefined
  behaviour inside a callback.
\<close>

definition rjson_main ::
  "(byte list \<Rightarrow> json_data option) \<Rightarrow> (nat \<Rightarrow> nat \<Rightarrow> nat) \<Rightarrow> map_order \<Rightarrow> nat \<Rightarrow> bool \<Rightarrow> bool \<Rightarrow>
     byte list list \<Rightarrow> main_result" where
  "rjson_main lexer grow ord argc in_ok out_ok chunks =
     (if argc < 2 then MainUsage
      else if \<not> in_ok then MainOpenError
      else case read_loop grow chunks read_init of
             None \<Rightarrow> MainCrash
           | Some rb \<Rightarrow>
               (case parse_document rjson_flags lexer (take (fullSize rb) (buf rb)) of
                  Inl _ \<Rightarrow> MainCrash
                | Inr None \<Rightarrow> MainParseError (readed rb)
                | Inr (Some st) \<Rightarrow>
                    if \<not> out_ok then MainOpenError
                    else (case root st of
                            None \<Rightarrow> MainCrash
                          | Some r \<Rightarrow> MainExit 0 (gen_out (snd (generate_json ord yajl_gen_alloc r))))))"

lemma read_init_loop:
  assumes "\<forall>c \<in> set cs. length c \<le> READ_BUFSIZE" "\<forall>s n. n \<le> grow s n"
  shows "\<exists>rb. read_loop grow cs read_init = Some rb \<and> take (fullSize rb) (buf rb) = stream_text cs \<and>
           readed rb = last_read cs"
  using read_loop_ok [OF read_init_inv assms] by (auto simp: read_init_def)

lemma rjson_flags_comments [simp]: "allow_comments rjson_flags"
  by (simp add: rjson_flags_def yajl_alloc_flags_def)

lemma parse_document_root:
  assumes "lexer text = Some d" "wf_json d"
  shows "\<exists>st. parse_document rjson_flags lexer text = Inr (Some st) \<and> root st = Some d"
  using feed_events_init [OF assms(2)] assms(1) by (auto simp: parse_document_def)

lemma generate_alloc_ok:
  "json_depth d < yajl_max_depth \<Longrightarrow> gen_out (snd (generate_json ord yajl_gen_alloc d)) = events_of (reorder ord d)"
  using generate_ok(1) [of yajl_gen_alloc "reorder ord d"]
  by (simp add: generate_json_reorder reorder_depth yajl_gen_alloc_def expects_value_def)

lemma generate_alloc_exceeded:
  "yajl_max_depth \<le> json_depth d \<Longrightarrow>
     strict_prefix (gen_out (snd (generate_json ord yajl_gen_alloc d))) (events_of (reorder ord d))"
  using generate_exceeded(1) [of yajl_gen_alloc "reorder ord d"]
  by (simp add: generate_json_reorder reorder_depth yajl_max_depth_def yajl_gen_alloc_def expects_value_def)

lemma main_exit_zero: "rjson_main lexer grow ord argc in_ok out_ok cs = MainExit c out \<Longrightarrow> c = 0"
  by (auto simp: rjson_main_def split: if_splits option.splits sum.splits)

lemma main_parsed:
  assumes "2 \<le> argc" "\<forall>c \<in> set cs. length c \<le> READ_BUFSIZE" "\<forall>s n. n \<le> grow s n"
    "parse_document rjson_flags lexer (stream_text cs) = Inr (Some st)" "root st = Some r"
  shows "rjson_main lexer grow ord argc True True cs = MainExit 0 (gen_out (snd (generate_json ord yajl_gen_alloc r)))"
proof -
  obtain rb where "read_loop grow cs read_init = Some rb" "take (fullSize rb) (buf rb) = stream_text cs"
    using read_init_loop [OF assms(2,3)] by blast
  then show ?thesis using assms(1,4,5) by (simp add: rjson_main_def)
qed

lemma main_lexer_cong:
  assumes "\<forall>c \<in> set cs1. length c \<le> READ_BUFSIZE" "\<forall>c \<in> set cs2. length c \<le> READ_BUFSIZE"
    "\<forall>s n. n \<le> grow s n" "lexer (stream_text cs2) = lexer (stream_text cs1)"
    "rjson_main lexer grow ord argc True True cs1 = MainExit k out"
  shows "rjson_main lexer grow ord argc True True cs2 = MainExit k out"
proof -
  obtain rb1 where rb1: "read_loop grow cs1 read_init = Some rb1" "take (fullSize rb1) (buf rb1) = stream_text cs1"
    using read_init_loop [OF assms(1,3)] by blast
  obtain rb2 where rb2: "read_loop grow cs2 read_init = Some rb2" "take (fullSize rb2) (buf rb2) = stream_text cs2"
    using read_init_loop [OF assms(2,3)] by blast
  have "parse_document rjson_flags lexer (stream_text cs2) = parse_document rjson_flags lexer (stream_text cs1)"
    using assms(4) by (simp add: parse_document_def)
  then show ?thesis using assms(5) rb1 rb2
    by (auto simp: rjson_main_def split: if_splits sum.splits option.splits)
qed

lemma main_to_generate:
  assumes "2 \<le> argc" "\<forall>c \<in> set cs. length c \<le> READ_BUFSIZE" "\<forall>s n. n \<le> grow s n"
    "lexer (stream_text cs) = Some d" "wf_json d"
  shows "rjson_main lexer grow ord argc True True cs = MainExit 0 (gen_out (snd (generate_json ord yajl_gen_alloc d)))"
proof -
  obtain st where "parse_document rjson_flags lexer (stream_text cs) = Inr (Some st)" "root st = Some d"
    using parse_document_root [of lexer "stream_text cs" d, OF assms(4,5)] by blast
  then show ?thesis by (rule main_parsed [OF assms(1-3)])
qed

subsection \<open>Properties of \<open>main\<close>\<close>

text \<open>
  C12.  End to end: when the arguments are present, the files open, the input
  is a well-formed document below the generator's depth bound, \<open>main\<close> exits
  with status 0 and writes exactly the document's token stream, each map's
  members in the order the map enumerates them.
\<close>

theorem rjson_main_success:
  assumes "2 \<le> argc" "\<forall>c \<in> set cs. length c \<le> READ_BUFSIZE" "\<forall>s n. n \<le> grow s n"
    "lexer (stream_text cs) = Some d" "wf_json d" "json_depth d < yajl_max_depth"
  shows "rjson_main lexer grow ord argc True True cs = MainExit 0 (events_of (reorder ord d))"
  using main_to_generate [of argc cs grow lexer d ord, OF assms(1-5)] generate_alloc_ok [OF assms(6)] by simp

theorem rjson_main_success_witness:
  "2 \<le> (2::nat) \<and> length [91, 49, 93 :: byte] \<le> READ_BUFSIZE \<and>
   (\<forall>s n. n \<le> libstdcxx_grow s n) \<and>
   (\<lambda>_. Some (JArray [JInteger 1])) (stream_text [[91, 49, 93]]) = Some (JArray [JInteger 1]) \<and>
   wf_json (JArray [JInteger 1]) \<and> json_depth (JArray [JInteger 1]) < yajl_max_depth \<and>
   rjson_main (\<lambda>_. Some (JArray [JInteger 1])) libstdcxx_grow insertion_order 2 True True [[91, 49, 93]] =
     MainExit 0 (events_of (reorder insertion_order (JArray [JInteger 1])))"
proof -
  have h2: "\<forall>c \<in> set [[91, 49, 93 :: byte]]. length c \<le> READ_BUFSIZE" by (simp add: READ_BUFSIZE_def)
  have h3: "\<forall>s n. n \<le> libstdcxx_grow s n" by (simp add: libstdcxx_grow_ge)
  have h6: "json_depth (JArray [JInteger 1]) < yajl_max_depth" by (simp add: yajl_max_depth_def)
  show ?thesis
    using h2 h3 h6 rjson_main_success [of 2 "[[91, 49, 93]]" libstdcxx_grow
      "\<lambda>_. Some (JArray [JInteger 1])" "JArray [JInteger 1]" insertion_order, OF _ h2 h3 _ _ h6]
    by simp
qed

text \<open>
  C13.  \<open>main\<close> ignores the status \<open>generate_json\<close> returns: for a well-formed
  document at or beyond the generator's depth bound, it still exits with
  status 0, and what it writes is a strict prefix of the document's tokens (a
  truncated, unbalanced JSON text).  The specification requires every error to
  be reported to the caller.
\<close>

theorem rjson_main_truncated_output:
  assumes "2 \<le> argc" "\<forall>c \<in> set cs. length c \<le> READ_BUFSIZE" "\<forall>s n. n \<le> grow s n"
    "lexer (stream_text cs) = Some d" "wf_json d" "yajl_max_depth \<le> json_depth d"
  shows "\<exists>out. rjson_main lexer grow ord argc True True cs = MainExit 0 out \<and>
           strict_prefix out (events_of (reorder ord d))"
  using main_to_generate [of argc cs grow lexer d ord, OF assms(1-5)] generate_alloc_exceeded [OF assms(6)]
  by simp

theorem rjson_main_truncated_output_witness:
  "2 \<le> (2::nat) \<and> length ([] :: byte list) \<le> READ_BUFSIZE \<and>
   (\<forall>s n. n \<le> libstdcxx_grow s n) \<and>
   (\<lambda>_. Some (nest 999)) (stream_text [[]]) = Some (nest 999) \<and>
   wf_json (nest 999) \<and> yajl_max_depth \<le> json_depth (nest 999) \<and>
   (\<exists>out. rjson_main (\<lambda>_. Some (nest 999)) libstdcxx_grow insertion_order 2 True True [[]] = MainExit 0 out \<and>
      strict_prefix out (events_of (reorder insertion_order (nest 999))))"
proof -
  have h2: "\<forall>c \<in> set [[] :: byte list]. length c \<le> READ_BUFSIZE" by simp
  have h3: "\<forall>s n. n \<le> libstdcxx_grow s n" by (simp add: libstdcxx_grow_ge)
  have h6: "yajl_max_depth \<le> json_depth (nest 999)" by (simp add: yajl_max_depth_def json_depth_nest)
  show ?thesis
    using h2 h3 h6 wf_nest rjson_main_truncated_output [of 2 "[[]]" libstdcxx_grow "\<lambda>_. Some (nest 999)" "nest 999"
      insertion_order, OF _ h2 h3 _ wf_nest h6]
    by simp
qed

text \<open>
  C15.  A rejected input exits with status 1 and writes nothing, and the error
  message is produced by \<open>yajl_get_error\<close> with \<open>jsonTextLength\<close> set to
  \<open>readed\<close>, the size of the last \<open>fread\<close>, not to \<open>fullSize\<close>: for any input
  longer than one chunk the error context is computed against the wrong length.
\<close>

theorem rjson_main_parse_error:
  assumes "2 \<le> argc" "\<forall>c \<in> set cs. length c \<le> READ_BUFSIZE" "\<forall>s n. n \<le> grow s n"
    "lexer (stream_text cs) = None"
  shows "rjson_main lexer grow ord argc True out_ok cs = MainParseError (last_read cs)"
proof -
  obtain rb where "read_loop grow cs read_init = Some rb" "take (fullSize rb) (buf rb) = stream_text cs"
      "readed rb = last_read cs"
    using read_init_loop [OF assms(2,3)] by blast
  with assms(1,4) show ?thesis by (simp add: rjson_main_def parse_document_def)
qed

theorem rjson_main_parse_error_witness:
  "2 \<le> (2::nat) \<and> length (replicate 4096 (32::byte)) \<le> READ_BUFSIZE \<and>
   length (replicate 10 (32::byte)) \<le> READ_BUFSIZE \<and>
   (\<forall>s n. n \<le> libstdcxx_grow s n) \<and>
   (\<lambda>_. None) (stream_text [replicate 4096 32, replicate 10 32]) = (None :: json_data option) \<and>
   rjson_main (\<lambda>_. None) libstdcxx_grow insertion_order 2 True True [replicate 4096 32, replicate 10 32] =
     MainParseError 10 \<and>
   length (stream_text [replicate 4096 (32::byte), replicate 10 32]) = 4106"
proof -
  have h2: "\<forall>c \<in> set [replicate 4096 (32::byte), replicate 10 32]. length c \<le> READ_BUFSIZE"
    by (simp add: READ_BUFSIZE_def)
  have h3: "\<forall>s n. n \<le> libstdcxx_grow s n" by (simp add: libstdcxx_grow_ge)
  have h4: "(\<lambda>_. None) (stream_text [replicate 4096 (32::byte), replicate 10 32]) = (None :: json_data option)"
    by simp
  have "last_read [replicate 4096 (32::byte), replicate 10 32] = 10" by (simp add: READ_BUFSIZE_def)
  moreover have "length (stream_text [replicate 4096 (32::byte), replicate 10 32]) = 4106"
    by (simp add: READ_BUFSIZE_def)
  ultimately show ?thesis
    using h2 h3 h4 rjson_main_parse_error [of 2 "[replicate 4096 32, replicate 10 32]" libstdcxx_grow
      "\<lambda>_. None" insertion_order True, OF _ h2 h3 h4]
    by simp
qed

text \<open>
  End to end on duplicate keys (the instance of C25 in the specification's
  example): for an input whose document is
  \<open>{"k":1,"k":2}\<close>, \<open>main\<close> exits with status 0 and writes \<open>{"k":1}\<close>; the
  specification's example says the member is \<open>k\<close> with value 2.
\<close>

theorem rjson_main_duplicate_keys:
  assumes "2 \<le> argc" "\<forall>c \<in> set cs. length c \<le> READ_BUFSIZE" "\<forall>s n. n \<le> grow s n"
    "lexer (stream_text cs) = Some (JMap [(k, JInteger 1), (k, JInteger 2)])"
  shows "rjson_main lexer grow ord argc True True cs = MainExit 0 [EvStartMap, EvMapKey k, EvInteger 1, EvEndMap]"
proof -
  obtain rb where "read_loop grow cs read_init = Some rb" "take (fullSize rb) (buf rb) = stream_text cs"
    using read_init_loop [OF assms(2,3)] by blast
  moreover have "parse_document rjson_flags lexer (stream_text cs) =
      Inr (Some \<lparr>stack = [], tempKey = k, root = Some (JMap [(k, JInteger 1)])\<rparr>)"
    using assms(4) by (simp add: parse_document_def builder_eval)
  ultimately show ?thesis using assms(1) by (simp add: rjson_main_def gen_eval)
qed

theorem rjson_main_duplicate_keys_witness:
  "2 \<le> (2::nat) \<and> length ([] :: byte list) \<le> READ_BUFSIZE \<and>
   (\<forall>s n. n \<le> libstdcxx_grow s n) \<and>
   (\<lambda>_. Some (JMap [(''k'', JInteger 1), (''k'', JInteger 2)])) (stream_text [[]]) =
     Some (JMap [(''k'', JInteger 1), (''k'', JInteger 2)]) \<and>
   rjson_main (\<lambda>_. Some (JMap [(''k'', JInteger 1), (''k'', JInteger 2)])) libstdcxx_grow insertion_order 2 True True [[]] =
     MainExit 0 [EvStartMap, EvMapKey ''k'', EvInteger 1, EvEndMap]"
proof -
  have h2: "\<forall>c \<in> set [[] :: byte list]. length c \<le> READ_BUFSIZE" by simp
  have h3: "\<forall>s n. n \<le> libstdcxx_grow s n" by (simp add: libstdcxx_grow_ge)
  show ?thesis
    using h2 h3 rjson_main_duplicate_keys [of 2 "[[]]" libstdcxx_grow
      "\<lambda>_. Some (JMap [(''k'', JInteger 1), (''k'', JInteger 2)])" "''k''" insertion_order, OF _ h2 h3]
    by simp
qed

end
