(* ===== verification/Yajl_Text.thy ===== *)
theory Yajl_Text
  imports Yajl_Gen
begin

text \<open>
  The text layer of the yajl generator.  \<open>main\<close> (src/program.cpp, lines
  363-371) configures the generator with \<open>yajl_gen_beautify\<close> and writes the
  buffer \<open>yajl_gen_get_buf\<close> returns; the generator's text is produced inside
  yajl, which is not part of this repository, so the definitions below model
  the contract the specification (section 4.3) sets for it: integers as exact
  decimal digits with a sign only when negative, strings delimited and
  escaped (backslash, double quote and the control characters below 0x20),
  one level of indentation (yajl's default four spaces) per container depth,
  a line break after each element and after the brackets of a non-empty
  container, \<open>[]\<close> and \<open>{}\<close> for empty containers, and the line break yajl
  emits after a completed top-level value.  The double printer is a
  parameter \<open>dbl\<close>: the specification only asks that it round-trip.

  Each printer has a reference reader (\<open>parse_int64\<close>, \<open>parse_string_lit\<close>,
  following the JSON grammar and yajl's integer-overflow check), and the
  round trips are proved.  The streaming renderer \<open>render\<close>, which consumes
  the generator's token stream with a small layout state as yajl does, is
  shown equal to the direct recursive pretty printer \<open>pretty\<close> on the tree.
\<close>

subsection \<open>Integers\<close>

text \<open>\<open>yajl_gen_integer\<close> prints with \<open>%lld\<close>; the JSON reader accepts an optional
  minus sign and a non-empty digit sequence, and rejects values outside the
  \<open>int64_t\<close> range.\<close>

definition digit_char :: "nat \<Rightarrow> char" where
  "digit_char d = ''0123456789'' ! d"

fun dec_digits :: "nat \<Rightarrow> string" where
  "dec_digits n = (if n < 10 then [digit_char n] else dec_digits (n div 10) @ [digit_char (n mod 10)])"

declare dec_digits.simps [simp del]

definition int_text :: "int \<Rightarrow> string" where
  "int_text i = (if i < 0 then CHR ''-'' # dec_digits (nat (- i)) else dec_digits (nat i))"

definition integer_text :: "int64 \<Rightarrow> string" where
  "integer_text w = int_text (sint w)"

definition is_digit :: "char \<Rightarrow> bool" where
  "is_digit c \<longleftrightarrow> (48::nat) \<le> of_char c \<and> of_char c \<le> (57::nat)"

fun digits_val :: "nat \<Rightarrow> string \<Rightarrow> nat" where
  "digits_val acc [] = acc"
| "digits_val acc (c # cs) = digits_val (10 * acc + (of_char c - 48)) cs"

definition parse_nat_text :: "string \<Rightarrow> nat option" where
  "parse_nat_text s = (if s \<noteq> [] \<and> list_all is_digit s then Some (digits_val 0 s) else None)"

definition parse_int_text :: "string \<Rightarrow> int option" where
  "parse_int_text s = (case s of
      [] \<Rightarrow> None
    | c # cs \<Rightarrow> if c = CHR ''-'' then map_option (\<lambda>n. - int n) (parse_nat_text cs)
                else map_option int (parse_nat_text s))"

definition parse_int64 :: "string \<Rightarrow> int64 option" where
  "parse_int64 s = (case parse_int_text s of
      None \<Rightarrow> None
    | Some i \<Rightarrow> if - (2 ^ 63) \<le> i \<and> i < 2 ^ 63 then Some (word_of_int i) else None)"

fun unsigned_lit :: "string \<Rightarrow> bool" where
  "unsigned_lit [] = False"
| "unsigned_lit (c # cs) = (if c = CHR ''0'' then cs = [] else is_digit c \<and> list_all is_digit cs)"

subsection \<open>Strings\<close>

text \<open>\<open>yajl_string_encode\<close>: the two-character escapes for quote, backslash and
  the named control characters, \<open>\\u00XX\<close> (upper-case hex) for the other
  control characters, every other byte unchanged.  \<open>scan_string\<close> is the
  reader of a string literal's body: it decodes escapes and stops at the first
  unescaped quote, returning the rest of the text.\<close>

definition hex_char :: "nat \<Rightarrow> char" where
  "hex_char d = ''0123456789ABCDEF'' ! d"

definition escape_char :: "char \<Rightarrow> string" where
  "escape_char c = (let n = (of_char c :: nat) in
     if n = 0x22 then [CHR 0x5C, CHR 0x22]
     else if n = 0x5C then [CHR 0x5C, CHR 0x5C]
     else if n = 0x08 then [CHR 0x5C, CHR 0x62]
     else if n = 0x0C then [CHR 0x5C, CHR 0x66]
     else if n = 0x0A then [CHR 0x5C, CHR 0x6E]
     else if n = 0x0D then [CHR 0x5C, CHR 0x72]
     else if n = 0x09 then [CHR 0x5C, CHR 0x74]
     else if n < 0x20 then [CHR 0x5C, CHR 0x75, CHR 0x30, CHR 0x30, hex_char (n div 16), hex_char (n mod 16)]
     else [c])"

definition string_text :: "bytes \<Rightarrow> string" where
  "string_text s = CHR 0x22 # concat (map escape_char s) @ [CHR 0x22]"

definition hex_val :: "char \<Rightarrow> nat option" where
  "hex_val c = (let n = (of_char c :: nat) in
     if 48 \<le> n \<and> n \<le> 57 then Some (n - 48)
     else if 97 \<le> n \<and> n \<le> 102 then Some (n - 87)
     else if 65 \<le> n \<and> n \<le> 70 then Some (n - 55)
     else None)"

definition simple_escape :: "char \<Rightarrow> char option" where
  "simple_escape d = (let n = (of_char d :: nat) in
     if n = 0x22 \<or> n = 0x5C \<or> n = 0x2F then Some d
     else if n = 0x62 then Some (CHR 0x08)
     else if n = 0x66 then Some (CHR 0x0C)
     else if n = 0x6E then Some (CHR 0x0A)
     else if n = 0x72 then Some (CHR 0x0D)
     else if n = 0x74 then Some (CHR 0x09)
     else None)"

fun scan_string :: "string \<Rightarrow> (bytes \<times> string) option" where
  "scan_string [] = None"
| "scan_string (c # cs) =
     (if c = CHR 0x22 then Some ([], cs)
      else if c = CHR 0x5C then
        (case cs of
           [] \<Rightarrow> None
         | d # ds \<Rightarrow>
             (case simple_escape d of
                Some e \<Rightarrow> map_option (apfst (Cons e)) (scan_string ds)
              | None \<Rightarrow>
                  (if d = CHR 0x75 then
                     (case ds of
                        h1 # h2 # h3 # h4 # rest \<Rightarrow>
                          (case (hex_val h1, hex_val h2, hex_val h3, hex_val h4) of
                             (Some a, Some b, Some x, Some y) \<Rightarrow>
                               (let v = 4096 * a + 256 * b + 16 * x + y in
                                if v < 0x80 then map_option (apfst (Cons (char_of v))) (scan_string rest)
                                else None)
                           | _ \<Rightarrow> None)
                      | _ \<Rightarrow> None)
                   else None)))
      else if of_char c < (0x20::nat) then None
      else map_option (apfst (Cons c)) (scan_string cs))"

definition parse_string_lit :: "string \<Rightarrow> (bytes \<times> string) option" where
  "parse_string_lit t = (case t of c # cs \<Rightarrow> if c = CHR 0x22 then scan_string cs else None | [] \<Rightarrow> None)"

subsection \<open>Beautified layout\<close>

text \<open>\<open>render_event\<close> prints one generator token given the layout state:
  the current depth, whether the next item is the first of its container, and
  whether a map key has just been printed (the value then follows on the same
  line).  \<open>pretty\<close> is the same layout written as a recursive function of the
  tree.\<close>

definition nl :: string where
  "nl = [CHR 0x0A]"

definition indent :: "nat \<Rightarrow> string" where
  "indent d = concat (replicate d ''    '')"

record layout =
  lay_depth :: nat
  lay_first :: bool
  lay_key :: bool

definition lay0 :: layout where
  "lay0 = \<lparr>lay_depth = 0, lay_first = False, lay_key = False\<rparr>"

definition item_sep :: "layout \<Rightarrow> string" where
  "item_sep l = (if lay_key l \<or> lay_depth l = 0 then []
                 else (if lay_first l then [] else '','') @ nl @ indent (lay_depth l))"

definition value_end :: "layout \<Rightarrow> string" where
  "value_end l = (if lay_depth l = 0 then nl else [])"

definition atom_text :: "(f64 \<Rightarrow> string) \<Rightarrow> yajl_event \<Rightarrow> string" where
  "atom_text dbl e = (case e of
      EvNull \<Rightarrow> ''null''
    | EvBoolean b \<Rightarrow> (if b then ''true'' else ''false'')
    | EvInteger i \<Rightarrow> integer_text i
    | EvDouble r \<Rightarrow> dbl r
    | EvString s \<Rightarrow> string_text s
    | _ \<Rightarrow> [])"

definition after_item :: "layout \<Rightarrow> layout" where
  "after_item l = l\<lparr>lay_first := False, lay_key := False\<rparr>"

fun render_event :: "(f64 \<Rightarrow> string) \<Rightarrow> layout \<Rightarrow> yajl_event \<Rightarrow> string \<times> layout" where
  "render_event dbl l (EvMapKey k) =
     (item_sep l @ string_text k @ '': '', l\<lparr>lay_first := False, lay_key := True\<rparr>)"
| "render_event dbl l EvStartMap =
     (item_sep l @ ''{'', \<lparr>lay_depth = Suc (lay_depth l), lay_first = True, lay_key = False\<rparr>)"
| "render_event dbl l EvStartArray =
     (item_sep l @ ''['', \<lparr>lay_depth = Suc (lay_depth l), lay_first = True, lay_key = False\<rparr>)"
| "render_event dbl l EvEndMap =
     (let l' = after_item (l\<lparr>lay_depth := lay_depth l - 1\<rparr>) in
      ((if lay_first l then [] else nl @ indent (lay_depth l')) @ ''}'' @ value_end l', l'))"
| "render_event dbl l EvEndArray =
     (let l' = after_item (l\<lparr>lay_depth := lay_depth l - 1\<rparr>) in
      ((if lay_first l then [] else nl @ indent (lay_depth l')) @ '']'' @ value_end l', l'))"
| "render_event dbl l e = (item_sep l @ atom_text dbl e @ value_end l, after_item l)"

fun render_from :: "(f64 \<Rightarrow> string) \<Rightarrow> layout \<Rightarrow> yajl_event list \<Rightarrow> string" where
  "render_from dbl l [] = []"
| "render_from dbl l (e # es) = (case render_event dbl l e of (t, l') \<Rightarrow> t @ render_from dbl l' es)"

definition render :: "(f64 \<Rightarrow> string) \<Rightarrow> yajl_event list \<Rightarrow> string" where
  "render dbl es = render_from dbl lay0 es"

fun pretty :: "(f64 \<Rightarrow> string) \<Rightarrow> nat \<Rightarrow> json_data \<Rightarrow> string"
and pretty_members :: "(f64 \<Rightarrow> string) \<Rightarrow> nat \<Rightarrow> bool \<Rightarrow> (bytes \<times> json_data) list \<Rightarrow> string"
and pretty_elems :: "(f64 \<Rightarrow> string) \<Rightarrow> nat \<Rightarrow> bool \<Rightarrow> json_data list \<Rightarrow> string" where
  "pretty dbl d JNull = ''null''"
| "pretty dbl d (JBoolean b) = (if b then ''true'' else ''false'')"
| "pretty dbl d (JInteger i) = integer_text i"
| "pretty dbl d (JReal r) = dbl r"
| "pretty dbl d (JString s) = string_text s"
| "pretty dbl d (JMap ms) =
     (if ms = [] then ''{}'' else ''{'' @ pretty_members dbl (Suc d) True ms @ nl @ indent d @ ''}'')"
| "pretty dbl d (JArray xs) =
     (if xs = [] then ''[]'' else ''['' @ pretty_elems dbl (Suc d) True xs @ nl @ indent d @ '']'')"
| "pretty_members dbl d f [] = []"
| "pretty_members dbl d f ((k, v) # ms) =
     (if f then [] else '','') @ nl @ indent d @ string_text k @ '': '' @ pretty dbl d v
     @ pretty_members dbl d False ms"
| "pretty_elems dbl d f [] = []"
| "pretty_elems dbl d f (x # xs) =
     (if f then [] else '','') @ nl @ indent d @ pretty dbl d x @ pretty_elems dbl d False xs"

subsection \<open>Integer round trip and format\<close>

lemma of_char_digit_char [simp]: "d < 10 \<Longrightarrow> of_char (digit_char d) = 48 + d"
  by (auto simp: digit_char_def less_Suc_eq numeral_eq_Suc)

lemma is_digit_digit_char [simp]: "d < 10 \<Longrightarrow> is_digit (digit_char d)"
  by (simp add: is_digit_def)

lemma dec_digits_ne [simp]: "dec_digits n \<noteq> []"
  by (subst dec_digits.simps) simp

lemma dec_digits_all_digit: "list_all is_digit (dec_digits n)"
  by (induction n rule: dec_digits.induct) (subst dec_digits.simps, simp)

lemma digits_val_append: "digits_val acc (xs @ ys) = digits_val (digits_val acc xs) ys"
  by (induction xs arbitrary: acc) auto

lemma digits_val_dec_digits: "digits_val acc (dec_digits n) = acc * 10 ^ length (dec_digits n) + n"
proof (induction n arbitrary: acc rule: dec_digits.induct)
  case (1 n)
  show ?case
  proof (cases "n < 10")
    case True
    then show ?thesis by (subst (1 2) dec_digits.simps) simp
  next
    case False
    then have "digits_val acc (dec_digits n) =
        10 * (acc * 10 ^ length (dec_digits (n div 10)) + n div 10) + n mod 10"
      using "1" by (subst dec_digits.simps) (simp add: digits_val_append)
    moreover have "length (dec_digits n) = Suc (length (dec_digits (n div 10)))"
      using False by (subst dec_digits.simps) simp
    ultimately show ?thesis by simp
  qed
qed

lemma parse_nat_dec_digits [simp]: "parse_nat_text (dec_digits n) = Some n"
  by (simp add: parse_nat_text_def dec_digits_all_digit digits_val_dec_digits)

lemma dec_digits_hd_not_minus: "hd (dec_digits n) \<noteq> CHR ''-''"
  using dec_digits_all_digit[of n] dec_digits_ne[of n]
  by (cases "dec_digits n") (auto simp: is_digit_def)

lemma parse_int_text_unsigned:
  "parse_int_text (dec_digits n) = Some (int n)"
proof -
  obtain c cs where eq: "dec_digits n = c # cs"
    using dec_digits_ne[of n] by (cases "dec_digits n") auto
  have "c \<noteq> CHR ''-''"
    using dec_digits_hd_not_minus[of n] eq by simp
  then have "parse_int_text (c # cs) = map_option int (parse_nat_text (c # cs))"
    by (simp add: parse_int_text_def)
  then show ?thesis using eq parse_nat_dec_digits[of n] by simp
qed

lemma parse_int_text_int_text: "parse_int_text (int_text i) = Some i"
proof (cases "i < 0")
  case True
  then show ?thesis by (simp add: int_text_def parse_int_text_def)
next
  case False
  then show ?thesis by (simp add: int_text_def parse_int_text_unsigned)
qed

lemma dec_digits_hd_zero: "hd (dec_digits n) = CHR ''0'' \<Longrightarrow> n = 0"
proof (induction n rule: dec_digits.induct)
  case (1 n)
  show ?case
  proof (cases "n < 10")
    case True
    then show ?thesis using "1.prems"
      by (subst (asm) dec_digits.simps) (auto simp: digit_char_def less_Suc_eq numeral_eq_Suc)
  next
    case False
    then have "hd (dec_digits (n div 10)) = CHR ''0''"
      using "1.prems" by (subst (asm) dec_digits.simps) simp
    then have "n div 10 = 0" using "1.IH" False by simp
    then show ?thesis using False by simp
  qed
qed

lemma unsigned_lit_dec_digits: "unsigned_lit (dec_digits n)"
proof (cases "dec_digits n")
  case Nil
  then show ?thesis by simp
next
  case (Cons c cs)
  have all: "list_all is_digit (c # cs)" using dec_digits_all_digit[of n] Cons by simp
  show ?thesis
  proof (cases "c = CHR ''0''")
    case True
    then have "n = 0" using dec_digits_hd_zero[of n] Cons by simp
    then have "dec_digits n = [CHR ''0'']" by (simp add: dec_digits.simps digit_char_def)
    then show ?thesis using Cons by simp
  qed (use all Cons in simp)
qed

lemma length_dec_digits: "n < 10 ^ Suc k \<Longrightarrow> length (dec_digits n) \<le> Suc k"
proof (induction n arbitrary: k rule: dec_digits.induct)
  case (1 n)
  show ?case
  proof (cases "n < 10")
    case True
    then show ?thesis by (subst dec_digits.simps) simp
  next
    case False
    then obtain j where k: "k = Suc j"
      using "1.prems" by (cases k) auto
    then have "n div 10 < 10 ^ Suc j" using "1.prems" by (simp add: less_mult_imp_div_less)
    then show ?thesis using "1.IH" False k by (subst dec_digits.simps) simp
  qed
qed

lemma sint_abs_bound: "nat \<bar>sint (w :: int64)\<bar> < 10 ^ 19"
proof -
  have "\<bar>sint w\<bar> \<le> 2 ^ 63" using sint_ge[of w] sint_lt[of w] by simp
  then show ?thesis by simp
qed

lemma parse_int64_integer_text: "parse_int64 (integer_text w) = Some w"
  using sint_ge[of w] sint_lt[of w]
  by (simp add: parse_int64_def integer_text_def parse_int_text_int_text)

lemma integer_text_format:
  "\<exists>ds. integer_text w = (if sint w < 0 then CHR ''-'' # ds else ds) \<and> unsigned_lit ds \<and> length ds \<le> 19"
proof -
  have b: "nat \<bar>sint w\<bar> < 10 ^ Suc 18" using sint_abs_bound[of w] by simp
  show ?thesis
  proof (cases "sint w < 0")
    case True
    then show ?thesis using length_dec_digits[OF b] unsigned_lit_dec_digits
      by (simp add: integer_text_def int_text_def)
  next
    case False
    then show ?thesis using length_dec_digits[OF b] unsigned_lit_dec_digits
      by (simp add: integer_text_def int_text_def)
  qed
qed

subsection \<open>String round trip\<close>

lemma hex_val_hex_char [simp]: "d < 16 \<Longrightarrow> hex_val (hex_char d) = Some d"
  by (auto simp: hex_char_def hex_val_def less_Suc_eq numeral_eq_Suc)

lemma char_eq_of_char: "c = d \<longleftrightarrow> (of_char c :: nat) = of_char d"
  by (metis char_of_char)

lemma scan_plain:
  assumes "(of_char c :: nat) \<noteq> 0x22" "(of_char c :: nat) \<noteq> 0x5C" "0x20 \<le> (of_char c :: nat)"
  shows "scan_string (c # rest) = map_option (apfst (Cons c)) (scan_string rest)"
  using assms by (auto simp: char_eq_of_char)

lemma hex_val_zero [simp]: "hex_val (CHR 0x30) = Some 0"
  by (simp add: hex_val_def)

lemma scan_control:
  assumes "(of_char c :: nat) < 0x20"
  shows "scan_string ([CHR 0x5C, CHR 0x75, CHR 0x30, CHR 0x30,
                    hex_char (of_char c div 16), hex_char (of_char c mod 16)] @ rest)
           = map_option (apfst (Cons c)) (scan_string rest)"
proof -
  let ?n = "of_char c :: nat"
  have "?n div 16 < 16" "?n mod 16 < 16" "16 * (?n div 16) + ?n mod 16 = ?n"
    using assms by simp_all
  then show ?thesis
    using assms by (simp add: simple_escape_def)
qed

lemma scan_escape_char:
  "scan_string (escape_char c @ rest) = map_option (apfst (Cons c)) (scan_string rest)"
proof -
  define n where "n = (of_char c :: nat)"
  consider "n = 0x22" | "n = 0x5C" | "n = 0x08" | "n = 0x0C" | "n = 0x0A" | "n = 0x0D" | "n = 0x09"
    | "n < 0x20" "n \<notin> {0x08, 0x0C, 0x0A, 0x0D, 0x09}"
    | "0x20 \<le> n" "n \<noteq> 0x22" "n \<noteq> 0x5C"
    by (cases "n < 0x20") auto
  then show ?thesis
  proof cases
    case 1
    then have "c = CHR 0x22" by (simp add: n_def char_eq_of_char)
    then show ?thesis by (simp add: escape_char_def simple_escape_def)
  next
    case 2
    then have "c = CHR 0x5C" by (simp add: n_def char_eq_of_char)
    then show ?thesis by (simp add: escape_char_def simple_escape_def)
  next
    case 3
    then have "c = CHR 0x08" by (simp add: n_def char_eq_of_char)
    then show ?thesis by (simp add: escape_char_def simple_escape_def)
  next
    case 4
    then have "c = CHR 0x0C" by (simp add: n_def char_eq_of_char)
    then show ?thesis by (simp add: escape_char_def simple_escape_def)
  next
    case 5
    then have "c = CHR 0x0A" by (simp add: n_def char_eq_of_char)
    then show ?thesis by (simp add: escape_char_def simple_escape_def)
  next
    case 6
    then have "c = CHR 0x0D" by (simp add: n_def char_eq_of_char)
    then show ?thesis by (simp add: escape_char_def simple_escape_def)
  next
    case 7
    then have "c = CHR 0x09" by (simp add: n_def char_eq_of_char)
    then show ?thesis by (simp add: escape_char_def simple_escape_def)
  next
    case 8
    then have "escape_char c = [CHR 0x5C, CHR 0x75, CHR 0x30, CHR 0x30,
                    hex_char (of_char c div 16), hex_char (of_char c mod 16)]"
      by (simp add: escape_char_def Let_def n_def)
    moreover have "(of_char c :: nat) < 0x20" using 8 by (simp add: n_def)
    ultimately show ?thesis by (simp only: scan_control)
  next
    case 9
    then show ?thesis
      using scan_plain[of c rest] by (simp add: escape_char_def n_def)
  qed
qed

lemma scan_escaped_body:
  "scan_string (concat (map escape_char s) @ CHR 0x22 # rest) = Some (s, rest)"
  by (induction s) (simp_all add: scan_escape_char)

lemma parse_string_lit_string_text: "parse_string_lit (string_text s @ rest) = Some (s, rest)"
  by (simp add: parse_string_lit_def string_text_def scan_escaped_body)

subsection \<open>Layout\<close>

lemma render_from_append_events:
  fixes l :: layout
  shows "render_from dbl l (events_of v @ es) =
           item_sep l @ pretty dbl (lay_depth l) v @ value_end l @ render_from dbl (after_item l) es"
    and "\<not> lay_key l \<Longrightarrow> 0 < lay_depth l \<Longrightarrow>
         render_from dbl l (events_members ms @ es) =
           pretty_members dbl (lay_depth l) (lay_first l) ms
           @ render_from dbl (if ms = [] then l else after_item l) es"
    and "\<not> lay_key l \<Longrightarrow> 0 < lay_depth l \<Longrightarrow>
         render_from dbl l (events_elems xs @ es) =
           pretty_elems dbl (lay_depth l) (lay_first l) xs
           @ render_from dbl (if xs = [] then l else after_item l) es"
proof (induction v and ms and xs arbitrary: l es and l es and l es rule: json_induct)
  case (Map ms)
  then show ?case
    by (cases l) (simp add: after_item_def item_sep_def value_end_def)
next
  case (Array xs)
  then show ?case
    by (cases l) (simp add: after_item_def item_sep_def value_end_def)
next
  case (MCons k v ms)
  then show ?case
    by (cases l) (simp add: after_item_def item_sep_def value_end_def)
next
  case (ECons x xs)
  then show ?case
    by (cases l) (simp add: after_item_def item_sep_def value_end_def)
qed (simp_all add: atom_text_def)

lemma render_events_of: "render dbl (events_of v) = pretty dbl 0 v @ nl"
  using render_from_append_events(1) [of dbl lay0 v "[]"]
  by (simp add: render_def lay0_def item_sep_def value_end_def)

end
