(* ===== verification/Json_Reader.thy ===== *)
theory Json_Reader
  imports Yajl_Text "HOL-Library.Sublist"
begin

text \<open>
  A reader of JSON text, the grammar the yajl parser (\<open>yajl_parse\<close> and
  \<open>yajl_complete_parse\<close>, outside the sources) accepts: whitespace and
  comments between tokens (\<open>main\<close> sets \<open>yajl_allow_comments\<close>: a block
  comment \<open>/* ... */\<close> is skipped, one left open runs to the end of the text,
  a line comment \<open>//\<close> runs to the next line break, and a slash that starts
  neither stays and is rejected as a token), the literals, string literals
  read by \<open>scan_string\<close>, numbers (a maximal run of number characters, an
  integer when it has only digits and a minus sign, read by \<open>parse_int64\<close>
  with its overflow check, a double otherwise, read by the parameter \<open>rd\<close>),
  arrays and objects.  Members are kept in text order, duplicates included, as
  the parser reports them.  The recursion is on fuel; \<open>read_json_text\<close> gives
  it one more than the length of the text, which is enough: a parse that
  succeeds consumes at least as many characters as it uses fuel
  (\<open>parse_fuel\<close>), so more fuel never changes the answer
  (\<open>parse_value_fuel_enough\<close>).

  The main lemma \<open>parse_pretty\<close> reads the pretty printing of any value back,
  whatever follows it as long as a number token cannot run on; it needs only
  that the double printer produces a number token that \<open>rd\<close> inverts and
  that does not look like an integer (\<open>dbl_ok\<close>).
\<close>

definition is_ws :: "char \<Rightarrow> bool" where
  "is_ws c \<longleftrightarrow> c = CHR 0x20 \<or> c = CHR 0x0A \<or> c = CHR 0x0D \<or> c = CHR 0x09"

fun drop_block :: "string \<Rightarrow> string" where
  "drop_block [] = []"
| "drop_block [c] = []"
| "drop_block (c # d # t) = (if c = CHR ''*'' \<and> d = CHR ''/'' then t else drop_block (d # t))"

function skip_ws :: "string \<Rightarrow> string" where
  "skip_ws [] = []"
| "skip_ws [c] = (if is_ws c then [] else [c])"
| "skip_ws (c # d # t) =
     (if is_ws c then skip_ws (d # t)
      else if c = CHR ''/'' \<and> d = CHR ''*'' then skip_ws (drop_block t)
      else if c = CHR ''/'' \<and> d = CHR ''/'' then skip_ws (dropWhile (\<lambda>x. x \<noteq> CHR 0x0A) t)
      else c # d # t)"
  by pat_completeness auto

lemma length_drop_block: "length (drop_block t) \<le> length t"
  by (induction t rule: drop_block.induct) auto

termination skip_ws
  by (relation "measure length")
     (simp_all add: less_Suc_eq_le le_SucI length_drop_block length_dropWhile_le)

declare skip_ws.simps [simp del]

fun drop_lit :: "string \<Rightarrow> string \<Rightarrow> string option" where
  "drop_lit [] t = Some t"
| "drop_lit (c # cs) [] = None"
| "drop_lit (c # cs) (d # ds) = (if c = d then drop_lit cs ds else None)"

definition is_num_char :: "char \<Rightarrow> bool" where
  "is_num_char c \<longleftrightarrow> is_digit c \<or> c \<in> set ''-+.eE''"

definition parse_number :: "(string \<Rightarrow> f64 option) \<Rightarrow> string \<Rightarrow> (json_data \<times> string) option" where
  "parse_number rd t =
     (let tok = takeWhile is_num_char t; rest = dropWhile is_num_char t in
      if tok = [] then None
      else if list_all (\<lambda>c. is_digit c \<or> c = CHR ''-'') tok
      then map_option (\<lambda>i. (JInteger i, rest)) (parse_int64 tok)
      else map_option (\<lambda>r. (JReal r, rest)) (rd tok))"

fun parse_value :: "(string \<Rightarrow> f64 option) \<Rightarrow> nat \<Rightarrow> string \<Rightarrow> (json_data \<times> string) option"
and parse_members :: "(string \<Rightarrow> f64 option) \<Rightarrow> nat \<Rightarrow> string \<Rightarrow> ((bytes \<times> json_data) list \<times> string) option"
and parse_elems :: "(string \<Rightarrow> f64 option) \<Rightarrow> nat \<Rightarrow> string \<Rightarrow> (json_data list \<times> string) option" where
  "parse_value rd 0 t = None"
| "parse_value rd (Suc n) t =
     (case skip_ws t of
        [] \<Rightarrow> None
      | c # r \<Rightarrow>
          if c = CHR ''n'' then map_option (Pair JNull) (drop_lit ''ull'' r)
          else if c = CHR ''t'' then map_option (Pair (JBoolean True)) (drop_lit ''rue'' r)
          else if c = CHR ''f'' then map_option (Pair (JBoolean False)) (drop_lit ''alse'' r)
          else if c = CHR 0x22 then map_option (\<lambda>(s, r'). (JString s, r')) (scan_string r)
          else if c = CHR ''{'' then
            (case skip_ws r of
               d # r' \<Rightarrow> if d = CHR ''}'' then Some (JMap [], r')
                         else map_option (\<lambda>(ms, r''). (JMap ms, r'')) (parse_members rd n r)
             | [] \<Rightarrow> None)
          else if c = CHR ''['' then
            (case skip_ws r of
               d # r' \<Rightarrow> if d = CHR '']'' then Some (JArray [], r')
                         else map_option (\<lambda>(xs, r''). (JArray xs, r'')) (parse_elems rd n r)
             | [] \<Rightarrow> None)
          else parse_number rd (c # r))"
| "parse_members rd 0 t = None"
| "parse_members rd (Suc n) t =
     (case skip_ws t of
        c # r \<Rightarrow>
          if c \<noteq> CHR 0x22 then None
          else (case scan_string r of
                  None \<Rightarrow> None
                | Some (k, r1) \<Rightarrow>
                    (case skip_ws r1 of
                       d # r2 \<Rightarrow>
                         if d \<noteq> CHR '':'' then None
                         else (case parse_value rd n r2 of
                                 None \<Rightarrow> None
                               | Some (v, r3) \<Rightarrow>
                                   (case skip_ws r3 of
                                      e # r4 \<Rightarrow>
                                        if e = CHR '','' then
                                          map_option (\<lambda>(ms, r5). ((k, v) # ms, r5)) (parse_members rd n r4)
                                        else if e = CHR ''}'' then Some ([(k, v)], r4)
                                        else None
                                    | [] \<Rightarrow> None))
                     | [] \<Rightarrow> None))
      | [] \<Rightarrow> None)"
| "parse_elems rd 0 t = None"
| "parse_elems rd (Suc n) t =
     (case parse_value rd n t of
        None \<Rightarrow> None
      | Some (v, r) \<Rightarrow>
          (case skip_ws r of
             e # r' \<Rightarrow>
               if e = CHR '','' then map_option (\<lambda>(xs, r''). (v # xs, r'')) (parse_elems rd n r')
               else if e = CHR '']'' then Some ([v], r')
               else None
           | [] \<Rightarrow> None))"

definition read_json_text :: "(string \<Rightarrow> f64 option) \<Rightarrow> string \<Rightarrow> json_data option" where
  "read_json_text rd t =
     (case parse_value rd (Suc (length t)) t of
        Some (v, rest) \<Rightarrow> if skip_ws rest = [] then Some v else None
      | None \<Rightarrow> None)"

definition stops :: "string \<Rightarrow> bool" where
  "stops rest = (case rest of [] \<Rightarrow> True | c # _ \<Rightarrow> \<not> is_num_char c)"

definition dbl_ok :: "(f64 \<Rightarrow> string) \<Rightarrow> (string \<Rightarrow> f64 option) \<Rightarrow> bool" where
  "dbl_ok dbl rd \<longleftrightarrow>
     (\<forall>r. dbl r \<noteq> [] \<and> list_all is_num_char (dbl r) \<and>
          \<not> list_all (\<lambda>c. is_digit c \<or> c = CHR ''-'') (dbl r) \<and> rd (dbl r) = Some r)"

lemma skip_ws_ws_Cons: "is_ws c \<Longrightarrow> skip_ws (c # t) = skip_ws t"
  by (cases t) (auto simp: skip_ws.simps)

lemma skip_ws_prefix: "list_all is_ws ws \<Longrightarrow> skip_ws (ws @ t) = skip_ws t"
  by (induction ws) (auto simp: skip_ws_ws_Cons)

lemma skip_ws_Cons: "\<not> is_ws c \<Longrightarrow> c \<noteq> CHR ''/'' \<Longrightarrow> skip_ws (c # t) = c # t"
  by (cases t) (auto simp: skip_ws.simps)

lemma ws_nl_indent [simp]: "list_all is_ws (nl @ indent d)"
  by (induction d) (auto simp: nl_def indent_def is_ws_def)

lemma drop_lit_append [simp]: "drop_lit xs (xs @ t) = Some t"
  by (induction xs) auto

lemma pretty_members_not_first:
  "ms \<noteq> [] \<Longrightarrow> pretty_members dbl d False ms = '','' @ pretty_members dbl d True ms"
  by (cases ms) auto

lemma pretty_elems_not_first:
  "xs \<noteq> [] \<Longrightarrow> pretty_elems dbl d False xs = '','' @ pretty_elems dbl d True xs"
  by (cases xs) auto

lemma number_token:
  assumes "tok \<noteq> []" "list_all is_num_char tok" "stops rest"
  shows "takeWhile is_num_char (tok @ rest) = tok \<and> dropWhile is_num_char (tok @ rest) = rest"
  using assms by (cases rest) (auto simp: stops_def takeWhile_append dropWhile_append list_all_iff)

lemma num_char_not_ws: "is_num_char c \<Longrightarrow> \<not> is_ws c"
  by (auto simp: is_num_char_def is_digit_def is_ws_def)

lemma num_char_not_start:
  "is_num_char c \<Longrightarrow> c \<noteq> CHR ''n'' \<and> c \<noteq> CHR ''t'' \<and> c \<noteq> CHR ''f'' \<and> c \<noteq> CHR 0x22 \<and>
     c \<noteq> CHR ''{'' \<and> c \<noteq> CHR ''['' \<and> c \<noteq> CHR ''/''"
  by (auto simp: is_num_char_def is_digit_def)

lemma parse_value_number:
  assumes "list_all is_ws ws" "tok \<noteq> []" "list_all is_num_char tok"
  shows "parse_value rd (Suc n) (ws @ tok @ rest) = parse_number rd (tok @ rest)"
proof -
  obtain c cs where tok: "tok = c # cs" using assms(2) by (cases tok) auto
  have "is_num_char c" using assms(3) tok by simp
  then show ?thesis
    using num_char_not_start[of c] num_char_not_ws[of c] tok
    by (simp add: skip_ws_prefix [OF assms(1)] skip_ws_Cons)
qed

lemma int_text_chars:
  "int_text i \<noteq> [] \<and> list_all is_num_char (int_text i) \<and>
   list_all (\<lambda>c. is_digit c \<or> c = CHR ''-'') (int_text i)"
  using dec_digits_all_digit[of "nat i"] dec_digits_all_digit[of "nat (- i)"]
  by (auto simp: int_text_def list_all_iff is_num_char_def)

lemma integer_text_chars:
  "integer_text w \<noteq> [] \<and> list_all is_num_char (integer_text w) \<and>
   list_all (\<lambda>c. is_digit c \<or> c = CHR ''-'') (integer_text w)"
  using int_text_chars [of "sint w"] by (simp add: integer_text_def)

lemma parse_number_integer:
  "stops rest \<Longrightarrow> parse_number rd (integer_text w @ rest) = Some (JInteger w, rest)"
  using integer_text_chars[of w] number_token[of "integer_text w" rest]
  by (simp add: parse_number_def parse_int64_integer_text)

lemma parse_number_real:
  "dbl_ok dbl rd \<Longrightarrow> stops rest \<Longrightarrow> parse_number rd (dbl r @ rest) = Some (JReal r, rest)"
  using number_token[of "dbl r" rest] by (simp add: dbl_ok_def parse_number_def)

lemma not_ws_lits [simp]:
  "\<not> is_ws CHR ''n''" "\<not> is_ws CHR ''t''" "\<not> is_ws CHR ''f''" "\<not> is_ws CHR 0x22"
  "\<not> is_ws CHR ''{''" "\<not> is_ws CHR ''[''" "\<not> is_ws CHR '',''" "\<not> is_ws CHR '':''"
  "\<not> is_ws CHR ''}''" "\<not> is_ws CHR '']''"
  by (simp_all add: is_ws_def)

lemma ws_basic [simp]: "is_ws CHR '' ''" "list_all is_ws nl" "list_all is_ws (indent d)"
  by (simp_all add: is_ws_def nl_def indent_def list_all_iff)

lemma stops_close: "list_all is_ws ws \<Longrightarrow> stops (ws @ c # rest) \<longleftrightarrow> (ws \<noteq> [] \<or> \<not> is_num_char c)"
  by (cases ws) (auto simp: stops_def dest: num_char_not_ws)

lemma not_num_lits [simp]: "\<not> is_num_char CHR ''}''" "\<not> is_num_char CHR '']''" "\<not> is_num_char CHR '',''"
  "\<not> is_num_char CHR 0x0A"
  by (simp_all add: is_num_char_def is_digit_def)

lemma stops_Cons [simp]: "stops (c # t) \<longleftrightarrow> \<not> is_num_char c"
  by (simp add: stops_def)

lemma pretty_members_start:
  "ms \<noteq> [] \<Longrightarrow> \<exists>t. pretty_members dbl d True ms = nl @ indent d @ CHR 0x22 # t"
  by (cases ms) (auto simp: string_text_def)

lemma pretty_start:
  assumes "dbl_ok dbl rd"
  shows "\<exists>c t. pretty dbl d v = c # t \<and> \<not> is_ws c \<and> c \<noteq> CHR '']'' \<and> c \<noteq> CHR ''/''"
proof (cases v)
  case (JInteger w)
  then obtain c t where "integer_text w = c # t" "is_num_char c"
    using integer_text_chars[of w] by (cases "integer_text w") auto
  then show ?thesis using JInteger num_char_not_ws[of c] num_char_not_start[of c]
    by (cases "c = CHR '']''") simp_all
next
  case (JReal r)
  have "dbl r \<noteq> [] \<and> list_all is_num_char (dbl r)" using assms by (simp add: dbl_ok_def)
  then obtain c t where "dbl r = c # t" "is_num_char c" by (cases "dbl r") auto
  then show ?thesis using JReal num_char_not_ws[of c] num_char_not_start[of c]
    by (cases "c = CHR '']''") simp_all
qed (simp_all add: string_text_def)

lemma pretty_elems_start:
  assumes "dbl_ok dbl rd" "xs \<noteq> []"
  shows "\<exists>c t. pretty_elems dbl d True xs = nl @ indent d @ c # t \<and> \<not> is_ws c \<and> c \<noteq> CHR '']'' \<and> c \<noteq> CHR ''/''"
proof -
  obtain x xs' where xs: "xs = x # xs'" using assms(2) by (cases xs) auto
  obtain c t where "pretty dbl d x = c # t" "\<not> is_ws c" "c \<noteq> CHR '']''" "c \<noteq> CHR ''/''"
    using pretty_start [OF assms(1)] by blast
  then show ?thesis using xs by auto
qed

lemma string_text_Cons: "string_text s = CHR 0x22 # concat (map escape_char s) @ [CHR 0x22]"
  by (simp add: string_text_def)

lemma parse_pretty:
  assumes ok: "dbl_ok dbl rd"
  shows "list_all is_ws ws \<Longrightarrow> length (pretty dbl d v) < n \<Longrightarrow> stops rest \<Longrightarrow>
           parse_value rd n (ws @ pretty dbl d v @ rest) = Some (v, rest)"
    and "ms \<noteq> [] \<Longrightarrow> list_all is_ws ws \<Longrightarrow> length (pretty_members dbl d True ms) < n \<Longrightarrow>
           parse_members rd n (pretty_members dbl d True ms @ ws @ ''}'' @ rest) = Some (ms, rest)"
    and "xs \<noteq> [] \<Longrightarrow> list_all is_ws ws \<Longrightarrow> length (pretty_elems dbl d True xs) < n \<Longrightarrow>
           parse_elems rd n (pretty_elems dbl d True xs @ ws @ '']'' @ rest) = Some (xs, rest)"
proof (induction v and ms and xs arbitrary: ws d n rest and ws d n rest and ws d n rest rule: json_induct)
  case Null
  then obtain m where "n = Suc m" by (cases n) auto
  then show ?case using Null.prems by (simp add: skip_ws_prefix skip_ws_Cons)
next
  case (Boolean b)
  then obtain m where "n = Suc m" by (cases n) auto
  then show ?case using Boolean.prems by (simp add: skip_ws_prefix skip_ws_Cons)
next
  case (Integer w)
  then obtain m where n: "n = Suc m" by (cases n) auto
  have "parse_value rd n (ws @ integer_text w @ rest) = parse_number rd (integer_text w @ rest)"
    unfolding n by (rule parse_value_number) (use Integer.prems integer_text_chars[of w] in simp_all)
  then show ?case using Integer.prems by (simp add: parse_number_integer)
next
  case (Real r)
  then obtain m where n: "n = Suc m" by (cases n) auto
  have "parse_value rd n (ws @ dbl r @ rest) = parse_number rd (dbl r @ rest)"
    unfolding n by (rule parse_value_number) (use Real.prems ok in \<open>simp_all add: dbl_ok_def\<close>)
  then show ?case using Real.prems ok by (simp add: parse_number_real)
next
  case (String s)
  then obtain m where "n = Suc m" by (cases n) auto
  then show ?case using String.prems
    by (simp add: skip_ws_prefix skip_ws_Cons string_text_Cons scan_escaped_body)
next
  case (Map ms)
  obtain m where n: "n = Suc m" using Map.prems(2) by (cases n) auto
  show ?case
  proof (cases "ms = []")
    case True
    then show ?thesis using Map.prems n by (simp add: skip_ws_prefix skip_ws_Cons)
  next
    case False
    obtain t where pm: "pretty_members dbl (Suc d) True ms = nl @ indent (Suc d) @ CHR 0x22 # t"
      using pretty_members_start [OF False] by blast
    have len: "length (pretty_members dbl (Suc d) True ms) < m" using Map.prems(2) False n by simp
    have rec: "parse_members rd m (pretty_members dbl (Suc d) True ms @ (nl @ indent d) @ ''}'' @ rest)
                 = Some (ms, rest)"
      by (rule Map.IH) (use False len in simp_all)
    show ?thesis using rec n False Map.prems(1) by (simp add: skip_ws_prefix skip_ws_Cons pm)
  qed
next
  case (Array xs)
  obtain m where n: "n = Suc m" using Array.prems(2) by (cases n) auto
  show ?case
  proof (cases "xs = []")
    case True
    then show ?thesis using Array.prems n by (simp add: skip_ws_prefix skip_ws_Cons)
  next
    case False
    obtain c t where pe: "pretty_elems dbl (Suc d) True xs = nl @ indent (Suc d) @ c # t"
      and c: "\<not> is_ws c" "c \<noteq> CHR '']''" "c \<noteq> CHR ''/''"
      using pretty_elems_start [OF ok False] by blast
    have len: "length (pretty_elems dbl (Suc d) True xs) < m" using Array.prems(2) False n by simp
    have rec: "parse_elems rd m (pretty_elems dbl (Suc d) True xs @ (nl @ indent d) @ '']'' @ rest)
                 = Some (xs, rest)"
      by (rule Array.IH) (use False len in simp_all)
    show ?thesis using rec n False Array.prems(1) c by (simp add: skip_ws_prefix skip_ws_Cons pe)
  qed
next
  case MNil
  then show ?case by simp
next
  case (MCons k v ms)
  obtain m where n: "n = Suc m" using MCons.prems(3) by (cases n) auto
  let ?tail = "pretty_members dbl d False ms @ ws @ ''}'' @ rest"
  have st: "stops ?tail"
  proof (cases "ms = []")
    case True
    then show ?thesis using MCons.prems(2) stops_close [of ws] by simp
  next
    case False
    then show ?thesis by (simp add: pretty_members_not_first)
  qed
  have lv: "length (pretty dbl d v) < m" using MCons.prems(3) n by (simp add: string_text_def)
  have pv: "parse_value rd m ('' '' @ pretty dbl d v @ ?tail) = Some (v, ?tail)"
    by (rule MCons.IH(1)) (use lv st in simp_all)
  show ?case
  proof (cases "ms = []")
    case True
    then show ?thesis using pv n MCons.prems(2)
      by (simp add: skip_ws_prefix skip_ws_Cons skip_ws_ws_Cons string_text_Cons scan_escaped_body)
  next
    case False
    have lm: "length (pretty_members dbl d True ms) < m"
      using MCons.prems(3) n False by (simp add: pretty_members_not_first)
    have pm: "parse_members rd m (pretty_members dbl d True ms @ ws @ ''}'' @ rest) = Some (ms, rest)"
      by (rule MCons.IH(2)) (use False MCons.prems(2) lm in simp_all)
    show ?thesis using pv pm n False
      by (simp add: skip_ws_prefix skip_ws_Cons skip_ws_ws_Cons string_text_Cons scan_escaped_body
          pretty_members_not_first)
  qed
next
  case ENil
  then show ?case by simp
next
  case (ECons x xs)
  obtain m where n: "n = Suc m" using ECons.prems(3) by (cases n) auto
  let ?tail = "pretty_elems dbl d False xs @ ws @ '']'' @ rest"
  have st: "stops ?tail"
  proof (cases "xs = []")
    case True
    then show ?thesis using ECons.prems(2) stops_close [of ws] by simp
  next
    case False
    then show ?thesis by (simp add: pretty_elems_not_first)
  qed
  have lx: "length (pretty dbl d x) < m" using ECons.prems(3) n by (simp add: nl_def)
  have px: "parse_value rd m ((nl @ indent d) @ pretty dbl d x @ ?tail) = Some (x, ?tail)"
    by (rule ECons.IH(1)) (use lx st in simp_all)
  show ?case
  proof (cases "xs = []")
    case True
    then show ?thesis using px n ECons.prems(2) by (simp add: skip_ws_prefix skip_ws_Cons)
  next
    case False
    have lm: "length (pretty_elems dbl d True xs) < m"
      using ECons.prems(3) n False by (simp add: pretty_elems_not_first)
    have pe: "parse_elems rd m (pretty_elems dbl d True xs @ ws @ '']'' @ rest) = Some (xs, rest)"
      by (rule ECons.IH(2)) (use False ECons.prems(2) lm in simp_all)
    show ?thesis using px pe n False by (simp add: skip_ws_prefix skip_ws_Cons pretty_elems_not_first)
  qed
qed

lemma read_pretty:
  "dbl_ok dbl rd \<Longrightarrow> read_json_text rd (pretty dbl 0 v @ nl) = Some v"
  using parse_pretty(1) [of dbl rd "[]" 0 v "Suc (length (pretty dbl 0 v @ nl))" nl]
  by (simp add: read_json_text_def nl_def stops_def is_ws_def is_num_char_def is_digit_def skip_ws.simps)

lemma length_skip_ws: "length (skip_ws t) \<le> length t"
  by (induction t rule: skip_ws.induct)
     (auto simp: skip_ws.simps intro: le_SucI order_trans [OF _ length_drop_block]
        order_trans [OF _ length_dropWhile_le])

lemma length_drop_lit: "drop_lit xs t = Some r \<Longrightarrow> length r \<le> length t"
  by (induction xs t rule: drop_lit.induct) (auto split: if_splits)

lemma length_scan_string: "scan_string t = Some (s, r) \<Longrightarrow> length r < length t"
proof (induction "length t" arbitrary: t s rule: less_induct)
  case less
  obtain c cs where t: "t = c # cs" using less.prems by (cases t) auto
  have ih: "scan_string u = Some (s', r) \<Longrightarrow> length u < Suc (length cs) \<Longrightarrow> length r < length u"
    for u s' using less.hyps t by auto
  show ?case using less.prems unfolding t
    by (auto split: if_splits option.splits list.splits simp: Let_def dest!: ih)
qed

lemma length_parse_number: "parse_number rd t = Some (v, r) \<Longrightarrow> length r < length t"
proof -
  assume p: "parse_number rd t = Some (v, r)"
  have "takeWhile is_num_char t \<noteq> []" "r = dropWhile is_num_char t"
    using p by (auto simp: parse_number_def Let_def split: if_splits)
  then show ?thesis
    using arg_cong [OF takeWhile_dropWhile_id [of is_num_char t], of length]
    by (cases "takeWhile is_num_char t") simp_all
qed

lemma skip_ws_shorter: "skip_ws t = c # r \<Longrightarrow> length r < length t"
  using length_skip_ws [of t] by simp

lemma parse_shorter:
  shows "parse_value rd n t = Some (v, r) \<Longrightarrow> length r < length t"
    and "parse_members rd n t = Some (ms, r) \<Longrightarrow> length r < length t"
    and "parse_elems rd n t = Some (xs, r) \<Longrightarrow> length r < length t"
proof (induction rd n t and rd n t and rd n t arbitrary: v r and ms r and xs r
       rule: parse_value_parse_members_parse_elems.induct)
  case (2 rd n t)
  then show ?case
    by (auto split: list.splits if_splits
        dest: skip_ws_shorter dest!: length_drop_lit length_scan_string length_parse_number)
       (auto dest!: skip_ws_shorter, (metis less_trans)+)
next
  case (4 rd n t)
  then show ?case
    by (auto split: list.splits if_splits option.splits)
       (auto dest!: skip_ws_shorter length_scan_string, (metis less_trans)+)
next
  case (6 rd n t)
  then show ?case
    by (auto split: list.splits if_splits option.splits)
       (auto dest!: skip_ws_shorter length_scan_string, (metis less_trans)+)
qed simp_all

lemma parse_fuel:
  shows "parse_value rd n t = Some (v, r) \<Longrightarrow> length t - length r \<le> m \<Longrightarrow> parse_value rd m t = Some (v, r)"
    and "parse_members rd n t = Some (ms, r) \<Longrightarrow> length t - length r \<le> m \<Longrightarrow> parse_members rd m t = Some (ms, r)"
    and "parse_elems rd n t = Some (xs, r) \<Longrightarrow> length t - length r \<le> m \<Longrightarrow> parse_elems rd m t = Some (xs, r)"
proof (induction rd n t and rd n t and rd n t arbitrary: v r m and ms r m and xs r m
       rule: parse_value_parse_members_parse_elems.induct)
  case (2 rd n t)
  from 2(3) obtain c r0 where sk: "skip_ws t = c # r0" by (cases "skip_ws t") auto
  have l0: "length r0 < length t" using skip_ws_shorter [OF sk] .
  obtain k where m: "m = Suc k" using parse_shorter(1) [OF 2(3)] 2(4) by (cases m) auto
  consider (obj) "c = CHR ''{''" | (arr) "c = CHR ''[''" | (other) "c \<noteq> CHR ''{''" "c \<noteq> CHR ''[''"
    by blast
  then show ?case
  proof cases
    case other
    then have "parse_value rd (Suc k) t = parse_value rd (Suc n) t" using sk by simp
    then show ?thesis using 2(3) m by simp
  next
    case obj
    from 2(3) sk obj obtain d r' where sk2: "skip_ws r0 = d # r'" by (auto split: list.splits)
    show ?thesis
    proof (cases "d = CHR ''}''")
      case True
      then show ?thesis using 2(3) sk sk2 obj m by simp
    next
      case False
      from 2(3) sk sk2 obj False obtain ms where pm: "parse_members rd n r0 = Some (ms, r)"
        and v: "v = JMap ms" by auto
      have len: "length r0 - length r \<le> k" using 2(4) l0 parse_shorter(2) [OF pm] m by simp
      have "parse_members rd k r0 = Some (ms, r)"
        by (rule 2(1) [OF sk [unfolded obj] _ _ _ _ refl sk2 False]) (simp_all add: pm len)
      then show ?thesis using sk sk2 obj False m v by simp
    qed
  next
    case arr
    from 2(3) sk arr obtain d r' where sk2: "skip_ws r0 = d # r'" by (auto split: list.splits)
    show ?thesis
    proof (cases "d = CHR '']''")
      case True
      then show ?thesis using 2(3) sk sk2 arr m by simp
    next
      case False
      from 2(3) sk sk2 arr False obtain xs where pe: "parse_elems rd n r0 = Some (xs, r)"
        and v: "v = JArray xs" by auto
      have len: "length r0 - length r \<le> k" using 2(4) l0 parse_shorter(3) [OF pe] m by simp
      have "parse_elems rd k r0 = Some (xs, r)"
        by (rule 2(2) [OF sk [unfolded arr] _ _ _ _ _ refl sk2 False]) (simp_all add: pe len)
      then show ?thesis using sk sk2 arr False m v by simp
    qed
  qed
next
  case (4 rd n t)
  from 4(3) obtain r0 where sk: "skip_ws t = CHR 0x22 # r0"
    by (cases "skip_ws t") (auto split: if_splits)
  from 4(3) sk obtain key r1 where sc: "scan_string r0 = Some (key, r1)"
    by (auto split: option.splits)
  from 4(3) sk sc obtain r2 where sk2: "skip_ws r1 = CHR '':'' # r2"
    by (cases "skip_ws r1") (auto split: if_splits)
  from 4(3) sk sc sk2 obtain v r3 where pv: "parse_value rd n r2 = Some (v, r3)"
    by (auto split: option.splits)
  from 4(3) sk sc sk2 pv obtain e r4 where sk3: "skip_ws r3 = e # r4"
    by (cases "skip_ws r3") auto
  obtain k where m: "m = Suc k" using parse_shorter(2) [OF 4(3)] 4(4) by (cases m) auto
  have l: "length r2 < length t" "length r4 < length r3" "length r3 < length r2"
    using skip_ws_shorter [OF sk] skip_ws_shorter [OF sk2] skip_ws_shorter [OF sk3]
      length_scan_string [OF sc] parse_shorter(1) [OF pv] by simp_all
  show ?case
  proof (cases "e = CHR '',''")
    case True
    from 4(3) sk sc sk2 pv sk3 True obtain ms' where pm: "parse_members rd n r4 = Some (ms', r)"
      and ms: "ms = (key, v) # ms'" by auto
    have "length r \<le> length r4" using parse_shorter(2) [OF pm] by simp
    then have lv: "length r2 - length r3 \<le> k" and lm: "length r4 - length r \<le> k"
      using 4(4) l m by simp_all
    have "parse_value rd k r2 = Some (v, r3)"
      by (rule 4(1) [OF sk _ sc refl sk2]) (simp_all add: pv lv)
    moreover have "parse_members rd k r4 = Some (ms', r)"
      by (rule 4(2) [OF sk _ sc refl sk2 _ pv refl sk3 True]) (simp_all add: pm lm)
    ultimately show ?thesis using sk sc sk2 sk3 True m ms by simp
  next
    case False
    with 4(3) sk sc sk2 pv sk3 have r: "r = r4" "e = CHR ''}''" "ms = [(key, v)]"
      by (auto split: if_splits)
    then have lv: "length r2 - length r3 \<le> k" using 4(4) l m by simp
    have "parse_value rd k r2 = Some (v, r3)"
      by (rule 4(1) [OF sk _ sc refl sk2]) (simp_all add: pv lv)
    then show ?thesis using sk sc sk2 sk3 r m by simp
  qed
next
  case (6 rd n t)
  from 6(3) obtain v r1 where pv: "parse_value rd n t = Some (v, r1)"
    by (auto split: option.splits)
  from 6(3) pv obtain e r2 where sk: "skip_ws r1 = e # r2"
    by (cases "skip_ws r1") auto
  obtain k where m: "m = Suc k" using parse_shorter(3) [OF 6(3)] 6(4) by (cases m) auto
  have l: "length r2 < length r1" "length r1 < length t"
    using skip_ws_shorter [OF sk] parse_shorter(1) [OF pv] by simp_all
  show ?case
  proof (cases "e = CHR '',''")
    case True
    from 6(3) pv sk True obtain xs' where pe: "parse_elems rd n r2 = Some (xs', r)"
      and xs: "xs = v # xs'" by auto
    have "length r \<le> length r2" using parse_shorter(3) [OF pe] by simp
    then have lv: "length t - length r1 \<le> k" and le: "length r2 - length r \<le> k"
      using 6(4) l m by simp_all
    have "parse_value rd k t = Some (v, r1)" by (rule 6(1)) (simp_all add: pv lv)
    moreover have "parse_elems rd k r2 = Some (xs', r)"
      by (rule 6(2) [OF pv refl sk True]) (simp_all add: pe le)
    ultimately show ?thesis using sk True m xs by simp
  next
    case False
    with 6(3) pv sk have r: "r = r2" "e = CHR '']''" "xs = [v]"
      by (auto split: if_splits)
    then have lv: "length t - length r1 \<le> k" using 6(4) l m by simp
    have "parse_value rd k t = Some (v, r1)" by (rule 6(1)) (simp_all add: pv lv)
    then show ?thesis using sk r m by simp
  qed
qed simp_all


lemma parse_value_fuel_enough:
  assumes "Suc (length t) \<le> m"
  shows "parse_value rd m t = parse_value rd (Suc (length t)) t"
proof (cases "parse_value rd m t")
  case None
  show ?thesis
  proof (cases "parse_value rd (Suc (length t)) t")
    case (Some x)
    then obtain v r where "parse_value rd (Suc (length t)) t = Some (v, r)" by (cases x) auto
    then have "parse_value rd m t = Some (v, r)" by (rule parse_fuel(1)) (use assms in simp)
    then show ?thesis using None by simp
  qed (use None in simp)
next
  case (Some x)
  then obtain v r where p: "parse_value rd m t = Some (v, r)" by (cases x) auto
  have "parse_value rd (Suc (length t)) t = Some (v, r)" by (rule parse_fuel(1) [OF p]) simp
  then show ?thesis using p by simp
qed

lemma read_json_text_fuel:
  "Suc (length t) \<le> m \<Longrightarrow>
     read_json_text rd t = (case parse_value rd m t of
                              Some (v, rest) \<Rightarrow> if skip_ws rest = [] then Some v else None
                            | None \<Rightarrow> None)"
  by (simp add: read_json_text_def parse_value_fuel_enough)

lemma drop_block_comment: "\<not> sublist ''*/'' c \<Longrightarrow> drop_block (c @ ''*/'' @ t) = t"
proof (induction c)
  case (Cons a c)
  have ih: "drop_block (c @ ''*/'' @ t) = t" using Cons by (simp add: sublist_Cons_right)
  show ?case
  proof (cases c)
    case (Cons b c')
    then have "\<not> (a = CHR ''*'' \<and> b = CHR ''/'')" using Cons.prems by auto
    then show ?thesis using ih Cons by simp
  qed simp
qed simp

lemma skip_ws_block_comment:
  "\<not> sublist ''*/'' c \<Longrightarrow> skip_ws (''/*'' @ c @ ''*/'' @ t) = skip_ws t"
proof -
  assume "\<not> sublist ''*/'' c"
  then have "drop_block (c @ CHR ''*'' # CHR ''/'' # t) = t" using drop_block_comment by simp
  then show ?thesis by (simp add: skip_ws.simps is_ws_def)
qed

lemma skip_ws_line_comment:
  "CHR 0x0A \<notin> set c \<Longrightarrow> skip_ws (''//'' @ c @ CHR 0x0A # t) = skip_ws t"
proof -
  assume "CHR 0x0A \<notin> set c"
  then have "dropWhile (\<lambda>x. x \<noteq> CHR 0x0A) (c @ CHR 0x0A # t) = CHR 0x0A # t"
    by (induction c) auto
  then show ?thesis by (simp add: skip_ws.simps skip_ws_ws_Cons is_ws_def)
qed

lemma parse_value_skip_cong:
  "skip_ws p = skip_ws t \<Longrightarrow> parse_value rd n p = parse_value rd n t"
  by (cases n) simp_all

lemma read_json_text_skip_prefix:
  assumes "skip_ws (p @ t) = skip_ws t"
  shows "read_json_text rd (p @ t) = read_json_text rd t"
proof -
  have "read_json_text rd (p @ t) =
          (case parse_value rd (Suc (length (p @ t))) t of
             Some (v, rest) \<Rightarrow> if skip_ws rest = [] then Some v else None
           | None \<Rightarrow> None)"
    by (simp add: read_json_text_def parse_value_skip_cong [OF assms])
  also have "\<dots> = read_json_text rd t" by (rule read_json_text_fuel [symmetric]) simp
  finally show ?thesis .
qed

text \<open>An integer literal of any size reads as an \<open>int64\<close> exactly when it is in range.\<close>

lemma read_int_text:
  "read_json_text rd (int_text i) =
     (if - (2 ^ 63) \<le> i \<and> i < 2 ^ 63 then Some (JInteger (word_of_int i)) else None)"
proof -
  have c: "int_text i \<noteq> []" "list_all is_num_char (int_text i)"
    "list_all (\<lambda>c. is_digit c \<or> c = CHR ''-'') (int_text i)"
    using int_text_chars [of i] by simp_all
  have "parse_value rd (Suc (length (int_text i))) ([] @ int_text i @ []) = parse_number rd (int_text i @ [])"
    by (rule parse_value_number) (use c in simp_all)
  moreover have "parse_number rd (int_text i) =
      (if - (2 ^ 63) \<le> i \<and> i < 2 ^ 63 then Some (JInteger (word_of_int i), []) else None)"
  proof -
    have tw: "takeWhile is_num_char (int_text i) = int_text i" "dropWhile is_num_char (int_text i) = []"
      using number_token [of "int_text i" "[]"] c by (simp_all add: stops_def)
    show ?thesis unfolding parse_number_def Let_def tw
      using c by (simp add: parse_int64_def parse_int_text_int_text)
  qed
  ultimately show ?thesis by (simp add: read_json_text_def skip_ws.simps)
qed

end
