(* ===== verification/Written_Text.thy ===== *)
theory Written_Text
  imports Pipeline Json_Reader
begin

text \<open>
  The text \<open>main\<close> writes for a built document (src/program.cpp, lines
  363-371): a fresh generator (\<open>yajl_gen_alloc\<close>), beautified, is given the
  root by \<open>generate_json\<close>, and the buffer \<open>yajl_gen_get_buf\<close> returns is
  written.  The properties below are the specification's rendering contract
  (section 4.3) read off that text: integers and strings read back exactly,
  integers have the required form, the layout is the recursive pretty
  printing, and the specification's examples render as stated.
\<close>

definition serialize_text :: "(f64 \<Rightarrow> string) \<Rightarrow> map_order \<Rightarrow> json_data \<Rightarrow> string" where
  "serialize_text dbl ord r = render dbl (gen_out (snd (generate_json ord yajl_gen_alloc r)))"

text \<open>The bytes \<open>fwrite\<close> puts in the output file (line 371): each character of the
  generator's buffer is one byte.  Reading a file back, the yajl parser
  sees the bytes as characters again, and \<open>fread\<close> on a regular file returns
  full chunks of \<open>READ_BUFSIZE\<close> bytes and then one short chunk.\<close>

definition text_bytes :: "string \<Rightarrow> byte list" where
  "text_bytes t = map (\<lambda>c. of_nat (of_char c)) t"

definition json_lexer :: "(string \<Rightarrow> f64 option) \<Rightarrow> byte list \<Rightarrow> json_data option" where
  "json_lexer rd bs = read_json_text rd (map (\<lambda>b. char_of (unat b)) bs)"

function file_reads :: "byte list \<Rightarrow> byte list list" where
  "file_reads bs = (if length bs < READ_BUFSIZE then [bs]
                    else take READ_BUFSIZE bs # file_reads (drop READ_BUFSIZE bs))"
  by pat_completeness auto
termination
  by (relation "measure length") (auto simp: READ_BUFSIZE_def)

declare file_reads.simps [simp del]

lemma serialize_text_pretty_ok:
  "json_depth d < yajl_max_depth \<Longrightarrow> serialize_text dbl ord d = pretty dbl 0 (reorder ord d) @ nl"
  by (simp add: serialize_text_def generate_alloc_ok render_events_of)

lemma serialize_text_scalar:
  "json_depth d = 0 \<Longrightarrow> serialize_text dbl ord d = pretty dbl 0 (reorder ord d) @ nl"
  by (rule serialize_text_pretty_ok) (simp add: yajl_max_depth_def)

lemma json_lexer_text_bytes: "json_lexer rd (text_bytes t) = read_json_text rd t"
proof -
  have "map (\<lambda>b. char_of (unat b)) (text_bytes t) = t"
    by (simp add: text_bytes_def comp_def unat_of_nat)
  then show ?thesis by (simp add: json_lexer_def)
qed

lemma file_reads_ok:
  "(\<forall>c \<in> set (file_reads bs). length c \<le> READ_BUFSIZE) \<and> stream_text (file_reads bs) = bs"
proof (induction bs rule: file_reads.induct)
  case (1 bs)
  show ?case
  proof (cases "length bs < READ_BUFSIZE")
    case True
    then show ?thesis by (subst (1 2) file_reads.simps) simp
  next
    case False
    then show ?thesis using "1.IH" by (subst (1 2) file_reads.simps) (simp add: min_def)
  qed
qed

text \<open>
  C17.  Integer round trip: for every \<open>int64\<close>, the two boundaries included, the
  text written for the integer is a line whose content reads back as the same
  64-bit value.
\<close>

theorem integer_written_roundtrip:
  "\<exists>t. serialize_text dbl ord (JInteger w) = t @ nl \<and> parse_int64 t = Some w"
  using serialize_text_scalar [of "JInteger w" dbl ord] by (simp add: parse_int64_integer_text)

text \<open>
  C18.  Integer format: the text written for an integer is a minus sign exactly
  when the value is negative, followed by at most 19 decimal digits with no
  leading zero (a single \<open>0\<close> for zero), and nothing else: no fraction and no
  exponent.
\<close>

theorem integer_written_format:
  "\<exists>ds. serialize_text dbl ord (JInteger w) = (if sint w < 0 then CHR ''-'' # ds else ds) @ nl \<and>
        unsigned_lit ds \<and> length ds \<le> 19"
  using serialize_text_scalar [of "JInteger w" dbl ord] integer_text_format [of w] by auto

text \<open>
  C19.  String round trip: the text written for a string is a quoted, escaped
  literal that reads back to the same bytes and ends exactly at its closing
  quote, whatever text follows it.
\<close>

theorem string_written_roundtrip:
  "\<exists>t. serialize_text dbl ord (JString s) = t @ nl \<and> (\<forall>rest. parse_string_lit (t @ rest) = Some (s, rest))"
  using serialize_text_scalar [of "JString s" dbl ord] by (simp add: parse_string_lit_string_text)

text \<open>
  C20.  Layout: for a document below the generator's depth bound, the text
  written is the recursive pretty printing of the document followed by a line
  break: every element on its own line, indented one level per container
  depth, empty containers as \<open>[]\<close> and \<open>{}\<close>.
\<close>

theorem serialize_text_pretty:
  assumes "json_depth d < yajl_max_depth"
  shows "serialize_text dbl ord d = pretty dbl 0 (reorder ord d) @ nl"
  using assms by (simp add: serialize_text_def generate_alloc_ok render_events_of)

theorem serialize_text_pretty_witness:
  "json_depth (JArray [JInteger 1]) < yajl_max_depth \<and>
   serialize_text (\<lambda>_. ''0.0'') insertion_order (JArray [JInteger 1]) =
     pretty (\<lambda>_. ''0.0'') 0 (reorder insertion_order (JArray [JInteger 1])) @ nl"
proof -
  have h: "json_depth (JArray [JInteger 1]) < yajl_max_depth" by (simp add: yajl_max_depth_def)
  show ?thesis using h serialize_text_pretty [OF h] by simp
qed

text \<open>
  C22.  Text round trip: for a document below the depth bound, reading the text
  the serializer writes with the JSON grammar gives the document back, given a
  double printer whose output is a number token its reader inverts (yajl
  prints doubles with \<open>%.17g\<close> and a \<open>.0\<close> when that looks like an integer).
\<close>

theorem serialize_text_read_back:
  assumes "dbl_ok dbl rd" "json_depth d < yajl_max_depth"
  shows "read_json_text rd (serialize_text dbl ord d) = Some (reorder ord d)"
  using assms by (simp add: serialize_text_pretty_ok read_pretty)

theorem serialize_text_read_back_witness:
  "dbl_ok (\<lambda>r. dec_digits (unat r) @ ''.0'') (\<lambda>t. map_option of_nat (parse_nat_text (butlast (butlast t)))) \<and>
   json_depth (JArray [JReal 5, JInteger (- 3)]) < yajl_max_depth \<and>
   read_json_text (\<lambda>t. map_option of_nat (parse_nat_text (butlast (butlast t))))
     (serialize_text (\<lambda>r. dec_digits (unat r) @ ''.0'') insertion_order (JArray [JReal 5, JInteger (- 3)]))
   = Some (JArray [JReal 5, JInteger (- 3)])"
proof -
  have h1: "dbl_ok (\<lambda>r. dec_digits (unat r) @ ''.0'') (\<lambda>t. map_option of_nat (parse_nat_text (butlast (butlast t))))"
    using dec_digits_all_digit by (auto simp: dbl_ok_def list_all_iff is_num_char_def is_digit_def butlast_append)
  have h2: "json_depth (JArray [JReal 5, JInteger (- 3)]) < yajl_max_depth" by (simp add: yajl_max_depth_def)
  show ?thesis using h1 h2 serialize_text_read_back [OF h1 h2, of insertion_order] by simp
qed

end
