(* ===== verification/Json_Abstract.thy ===== *)
theory Json_Abstract
  imports Map_Order "HOL-Library.Finite_Map"
begin

text \<open>
  The abstract JSON value of the specification (section 3): an Object is a
  finite mapping from keys to values, with no order; an Array is a sequence.
  \<open>absj\<close> reads a stored tree as such a value; a member list with a repeated key
  denotes the first member under it, as \<open>std::unordered_map::emplace\<close> keeps
  the first.  \<open>absj_reorder\<close> is the refinement fact the round trips rest on:
  the enumeration order of the maps is invisible in the abstract value.
\<close>

datatype json_abs =
    ANull
  | ABoolean bool
  | AInteger int64
  | AReal f64
  | AString bytes
  | AMap "(bytes, json_abs) fmap"
  | AArray "json_abs list"

fun absj :: "json_data \<Rightarrow> json_abs"
and abs_members :: "(bytes \<times> json_data) list \<Rightarrow> (bytes \<times> json_abs) list"
and abs_elems :: "json_data list \<Rightarrow> json_abs list" where
  "absj JNull = ANull"
| "absj (JBoolean b) = ABoolean b"
| "absj (JInteger i) = AInteger i"
| "absj (JReal r) = AReal r"
| "absj (JString s) = AString s"
| "absj (JMap ms) = AMap (fmap_of_list (abs_members ms))"
| "absj (JArray xs) = AArray (abs_elems xs)"
| "abs_members [] = []"
| "abs_members ((k, v) # ms) = (k, absj v) # abs_members ms"
| "abs_elems [] = []"
| "abs_elems (x # xs) = absj x # abs_elems xs"

lemma abs_members_map: "abs_members ms = map (\<lambda>(k, v). (k, absj v)) ms"
  by (induction ms rule: list.induct) auto

lemma fmap_of_list_perm:
  assumes "distinct (map fst xs)" "mset xs = mset ys"
  shows "fmap_of_list xs = fmap_of_list ys"
proof -
  have "distinct (map fst ys)"
    using assms by (metis mset_eq_imp_distinct_iff mset_map)
  moreover have "set xs = set ys" using assms(2) by (metis set_mset_mset)
  ultimately have "map_of xs = map_of ys" using assms(1) by (simp add: map_of_inject_set)
  then show ?thesis by (simp add: fmap_ext fmlookup_of_list)
qed

lemma absj_reorder:
  "wf_json v \<Longrightarrow> absj (reorder ord v) = absj v"
  "wf_members ms \<Longrightarrow> abs_members (reorder_members ord ms) = abs_members ms"
  "wf_elems xs \<Longrightarrow> abs_elems (reorder_elems ord xs) = abs_elems xs"
proof (induction v and ms and xs rule: json_induct)
  case (Map ms)
  have keys: "distinct (map fst (abs_members (reorder_members ord ms)))"
    using Map.prems by (simp add: abs_members_map reorder_members_map comp_def case_prod_beta)
  have "abs_members (enum_members ord (reorder_members ord ms)) =
        enum_members ord (abs_members (reorder_members ord ms))"
    by (simp add: abs_members_map enum_members_map_values)
  moreover have "fmap_of_list (abs_members (reorder_members ord ms)) =
      fmap_of_list (enum_members ord (abs_members (reorder_members ord ms)))"
    by (rule fmap_of_list_perm [OF keys]) simp
  moreover have "abs_members (reorder_members ord ms) = abs_members ms"
    using Map by simp
  ultimately show ?case by simp
qed simp_all

end
