(* ===== verification/Builder_Dups.thy ===== *)
theory Builder_Dups
  imports Builder Json_Abstract
begin

text \<open>
  The builder on documents with repeated keys.  A parser reports every member
  of an object text, repeated keys included; \<open>emplace\<close> keeps the first
  member under a key and \<open>insert\<close> then returns a pointer to that first
  member.  When the repeated members are scalars, the effect is exactly to
  drop them: \<open>first_wins\<close> is that reference, and \<open>scalar_dups\<close> says that
  every repeated member of every map is a scalar.  (A container under a
  repeated key is merged into the first member instead, C5.)
\<close>

fun is_scalar :: "json_data \<Rightarrow> bool" where
  "is_scalar (JMap ms) = False"
| "is_scalar (JArray xs) = False"
| "is_scalar v = True"

fun first_wins :: "json_data \<Rightarrow> json_data"
and fw_members :: "bytes list \<Rightarrow> (bytes \<times> json_data) list \<Rightarrow> (bytes \<times> json_data) list"
and fw_elems :: "json_data list \<Rightarrow> json_data list" where
  "first_wins (JMap ms) = JMap (fw_members [] ms)"
| "first_wins (JArray xs) = JArray (fw_elems xs)"
| "first_wins v = v"
| "fw_members seen [] = []"
| "fw_members seen ((k, v) # ms) =
     (if k \<in> set seen then fw_members seen ms else (k, first_wins v) # fw_members (k # seen) ms)"
| "fw_elems [] = []"
| "fw_elems (x # xs) = first_wins x # fw_elems xs"

fun scalar_dups :: "json_data \<Rightarrow> bool"
and sd_members :: "bytes list \<Rightarrow> (bytes \<times> json_data) list \<Rightarrow> bool"
and sd_elems :: "json_data list \<Rightarrow> bool" where
  "scalar_dups (JMap ms) = sd_members [] ms"
| "scalar_dups (JArray xs) = sd_elems xs"
| "scalar_dups v = True"
| "sd_members seen [] = True"
| "sd_members seen ((k, v) # ms) =
     (if k \<in> set seen then is_scalar v \<and> sd_members seen ms
      else scalar_dups v \<and> sd_members (k # seen) ms)"
| "sd_elems [] = True"
| "sd_elems (x # xs) = (scalar_dups x \<and> sd_elems xs)"

lemma feed_dup_scalar:
  assumes "stack st = q # qs" "root st = Some r" "get_at q r = Some (JMap ms0)"
    "map_of ms0 k \<noteq> None" "is_scalar v"
  shows "feed (EvMapKey k # events_of v) st = Inr (st\<lparr>tempKey := k\<rparr>)"
proof -
  obtain old where "map_of ms0 k = Some old" using assms(4) by auto
  then have "insert_json v (st\<lparr>tempKey := k\<rparr>) = Inr (st\<lparr>tempKey := k\<rparr>, q @ [SKey k])"
    using insert_json_dup_key [of "st\<lparr>tempKey := k\<rparr>" q qs r ms0 old v] assms(1-3) by simp
  then show ?thesis using assms(5)
    by (cases v) (simp_all add: reader_map_key_def reader_value_def reader_null_def reader_boolean_def
        reader_integer_def reader_double_def reader_string_def)
qed

lemma feed_events_dups:
  "\<And>st p ps r c. stack st = p # ps \<Longrightarrow> root st = Some r \<Longrightarrow> get_at p r = Some c \<Longrightarrow>
     accepts c (tempKey st) \<Longrightarrow> scalar_dups v \<Longrightarrow>
     \<exists>st'. feed (events_of v) st = Inr st' \<and> stack st' = p # ps \<and>
       root st' = Some (upd_at p (\<lambda>_. add_child c (tempKey st) (first_wins v)) r)"
  "\<And>st q qs r ms0 seen. stack st = q # qs \<Longrightarrow> root st = Some r \<Longrightarrow> get_at q r = Some (JMap ms0) \<Longrightarrow>
     distinct (map fst ms0) \<Longrightarrow> set seen = set (map fst ms0) \<Longrightarrow> sd_members seen ms \<Longrightarrow>
     \<exists>st'. feed (events_members ms) st = Inr st' \<and> stack st' = q # qs \<and>
       root st' = Some (upd_at q (\<lambda>_. JMap (ms0 @ fw_members seen ms)) r)"
  "\<And>st q qs r xs0. stack st = q # qs \<Longrightarrow> root st = Some r \<Longrightarrow> get_at q r = Some (JArray xs0) \<Longrightarrow>
     sd_elems xs \<Longrightarrow>
     \<exists>st'. feed (events_elems xs) st = Inr st' \<and> stack st' = q # qs \<and>
       root st' = Some (upd_at q (\<lambda>_. JArray (xs0 @ fw_elems xs)) r)"
proof (induction v and ms and xs rule: json_induct)
  case (Map ms)
  show ?case unfolding events_of.simps first_wins.simps
  proof (rule feed_container [OF Map.prems(1-4)])
    fix st1 :: json_data_state and r1
    assume "stack st1 = (p @ [new_sel c (tempKey st)]) # p # ps" "root st1 = Some r1"
      "get_at (p @ [new_sel c (tempKey st)]) r1 = Some (json_data_of_type json_type_map)"
    with Map.IH [of st1 _ _ r1 "[]" "[]"] Map.prems(5)
    show "\<exists>st2. feed (events_members ms) st1 = Inr st2 \<and> stack st2 = stack st1 \<and>
            root st2 = Some (upd_at (p @ [new_sel c (tempKey st)]) (\<lambda>_. JMap (fw_members [] ms)) r1)"
      by auto
  qed (simp_all add: fun_eq_iff reader_start_map_def reader_end_map_def)
next
  case (Array xs)
  show ?case unfolding events_of.simps first_wins.simps
  proof (rule feed_container [OF Array.prems(1-4)])
    fix st1 :: json_data_state and r1
    assume "stack st1 = (p @ [new_sel c (tempKey st)]) # p # ps" "root st1 = Some r1"
      "get_at (p @ [new_sel c (tempKey st)]) r1 = Some (json_data_of_type json_type_array)"
    with Array.IH [of st1 _ _ r1 "[]"] Array.prems(5)
    show "\<exists>st2. feed (events_elems xs) st1 = Inr st2 \<and> stack st2 = stack st1 \<and>
            root st2 = Some (upd_at (p @ [new_sel c (tempKey st)]) (\<lambda>_. JArray (fw_elems xs)) r1)"
      by auto
  qed (simp_all add: fun_eq_iff reader_start_array_def reader_end_array_def)
next
  case (MCons k v ms)
  show ?case
  proof (cases "k \<in> set seen")
    case True
    then have dup: "map_of ms0 k \<noteq> None" "is_scalar v" "sd_members seen ms"
      using MCons.prems(5,6) by (auto simp: map_of_eq_None_iff)
    have "feed (EvMapKey k # events_of v) st = Inr (st\<lparr>tempKey := k\<rparr>)"
      by (rule feed_dup_scalar [OF MCons.prems(1-3) dup(1,2)])
    moreover obtain st3 where "feed (events_members ms) (st\<lparr>tempKey := k\<rparr>) = Inr st3" "stack st3 = q # qs"
        "root st3 = Some (upd_at q (\<lambda>_. JMap (ms0 @ fw_members seen ms)) r)"
      using MCons.IH(2) [of "st\<lparr>tempKey := k\<rparr>" q qs r ms0 seen] MCons.prems(1-5) dup(3) by auto
    ultimately show ?thesis using True by (simp add: feed_append reader_map_key_def)
  next
    case False
    let ?st1 = "st\<lparr>tempKey := k\<rparr>"
    have key: "map_of ms0 k = None" using False MCons.prems(5) by (auto simp: map_of_eq_None_iff)
    have sd: "scalar_dups v" "sd_members (k # seen) ms" using False MCons.prems(6) by simp_all
    obtain st2 where st2: "feed (events_of v) ?st1 = Inr st2" "stack st2 = q # qs"
        "root st2 = Some (upd_at q (\<lambda>_. JMap (ms0 @ [(k, first_wins v)])) r)"
      using MCons.IH(1) [of ?st1 q qs r "JMap ms0"] MCons.prems(1-3) key sd(1)
      by (auto simp: emplace_def)
    have g: "get_at q (upd_at q (\<lambda>_. JMap (ms0 @ [(k, first_wins v)])) r) = Some (JMap (ms0 @ [(k, first_wins v)]))"
      using MCons.prems(3) by (simp add: get_at_upd_at_same)
    have d: "distinct (map fst (ms0 @ [(k, first_wins v)]))" using MCons.prems(4) key
      by (simp add: distinct_keys_snoc map_of_eq_None_iff)
    have ks: "set (k # seen) = set (map fst (ms0 @ [(k, first_wins v)]))" using MCons.prems(5) by auto
    obtain st3 where "feed (events_members ms) st2 = Inr st3" "stack st3 = q # qs"
        "root st3 = Some (upd_at q (\<lambda>_. JMap ((ms0 @ [(k, first_wins v)]) @ fw_members (k # seen) ms)) r)"
      using MCons.IH(2) [OF st2(2,3) g d ks sd(2)] by (auto simp: upd_at_const_const)
    then show ?thesis
      using st2(1) False by (simp add: feed_append reader_map_key_def)
  qed
next
  case (ECons x xs)
  obtain st2 where st2: "feed (events_of x) st = Inr st2" "stack st2 = q # qs"
      "root st2 = Some (upd_at q (\<lambda>_. JArray (xs0 @ [first_wins x])) r)"
    using ECons.IH(1) [of st q qs r "JArray xs0"] ECons.prems by auto
  have "get_at q (upd_at q (\<lambda>_. JArray (xs0 @ [first_wins x])) r) = Some (JArray (xs0 @ [first_wins x]))"
    using ECons.prems(3) by (simp add: get_at_upd_at_same)
  then obtain st3 where "feed (events_elems xs) st2 = Inr st3" "stack st3 = q # qs"
      "root st3 = Some (upd_at q (\<lambda>_. JArray ((xs0 @ [first_wins x]) @ fw_elems xs)) r)"
    using ECons.IH(2) [OF st2(2,3)] ECons.prems(4)
    by (auto simp: upd_at_const_const)
  then show ?case
    using st2(1) by (simp add: feed_append)
qed (auto simp: reader_value_def insert_json_top reader_null_def reader_boolean_def
                reader_integer_def reader_double_def reader_string_def upd_at_id)

lemma feed_first_wins_init:
  assumes "scalar_dups v"
  shows "\<exists>st. feed (events_of v) init_state = Inr st \<and> stack st = [] \<and> root st = Some (first_wins v)"
proof (cases v)
  case (JMap ms)
  let ?st1 = "init_state\<lparr>root := Some (JMap []), stack := [[]]\<rparr>"
  have "reader_cb EvStartMap init_state = Inr ?st1"
    by (simp add: reader_start_map_def reader_start_def insert_json_def init_state_def)
  moreover obtain st2 where "feed (events_members ms) ?st1 = Inr st2" "stack st2 = [[]]"
      "root st2 = Some (JMap (fw_members [] ms))"
    using feed_events_dups(2) [of ?st1 "[]" "[]" "JMap []" "[]" "[]" ms] assms JMap by auto
  ultimately show ?thesis
    using JMap by (simp add: feed_append reader_end_map_def reader_end_def)
next
  case (JArray xs)
  let ?st1 = "init_state\<lparr>root := Some (JArray []), stack := [[]]\<rparr>"
  have "reader_cb EvStartArray init_state = Inr ?st1"
    by (simp add: reader_start_array_def reader_start_def insert_json_def init_state_def)
  moreover obtain st2 where "feed (events_elems xs) ?st1 = Inr st2" "stack st2 = [[]]"
      "root st2 = Some (JArray (fw_elems xs))"
    using feed_events_dups(3) [of ?st1 "[]" "[]" "JArray []" "[]" xs] assms JArray by auto
  ultimately show ?thesis
    using JArray by (simp add: feed_append reader_end_array_def reader_end_def)
qed (simp_all add: init_state_def reader_value_def insert_json_def reader_null_def
       reader_boolean_def reader_integer_def reader_double_def reader_string_def)

lemma map_of_fw_members:
  assumes "\<forall>(k', v') \<in> set ms. absj (first_wins v') = absj v'"
  shows "map_of (abs_members (fw_members seen ms)) k =
           (if k \<in> set seen then None else map_of (abs_members ms) k)"
  using assms by (induction ms arbitrary: seen) auto

lemma absj_first_wins:
  "absj (first_wins v) = absj v"
  "\<forall>(k, v) \<in> set (ms :: (bytes \<times> json_data) list). absj (first_wins v) = absj v"
  "abs_elems (fw_elems xs) = abs_elems xs"
proof (induction v and ms and xs rule: json_induct)
  case (Map ms)
  have "map_of (abs_members (fw_members [] ms)) = map_of (abs_members ms)"
    using map_of_fw_members [OF Map.IH, of "[]"] by (simp add: fun_eq_iff)
  then show ?case by (simp add: fmap_ext fmlookup_of_list)
qed simp_all

lemma wf_first_wins:
  "wf_json (first_wins v)"
  "\<forall>seen. set (map fst (fw_members seen ms)) \<inter> set seen = {} \<and>
     distinct (map fst (fw_members seen ms)) \<and> wf_members (fw_members seen ms)"
  "wf_elems (fw_elems xs)"
proof (induction v and ms and xs rule: json_induct)
  case (MCons k v ms)
  show ?case
  proof
    fix seen
    have ih: "set (map fst (fw_members (k # seen) ms)) \<inter> set (k # seen) = {}"
      "distinct (map fst (fw_members (k # seen) ms))" "wf_members (fw_members (k # seen) ms)"
      using MCons.IH(2) by blast+
    then show "set (map fst (fw_members seen ((k, v) # ms))) \<inter> set seen = {} \<and>
        distinct (map fst (fw_members seen ((k, v) # ms))) \<and> wf_members (fw_members seen ((k, v) # ms))"
      using MCons.IH by (cases "k \<in> set seen") auto
  qed
qed auto

lemma first_wins_depth:
  "json_depth (first_wins v) \<le> json_depth v"
  "\<forall>seen. members_depth (fw_members seen ms) \<le> members_depth ms"
  "elems_depth (fw_elems xs) \<le> elems_depth xs"
proof (induction v and ms and xs rule: json_induct)
  case (MCons k v ms)
  show ?case
  proof
    fix seen
    have "members_depth (fw_members (k # seen) ms) \<le> members_depth ms"
      "members_depth (fw_members seen ms) \<le> members_depth ms"
      using MCons.IH(2) by blast+
    then show "members_depth (fw_members seen ((k, v) # ms)) \<le> members_depth ((k, v) # ms)"
      using MCons.IH(1) by (cases "k \<in> set seen") auto
  qed
qed (auto simp: le_max_iff_disj)

subsection \<open>Properties of the builder on repeated keys\<close>

text \<open>
  C24.  The builder implements the object semantics \<open>emplace\<close> gives it: for
  any document whose repeated keys hold scalars, the callbacks build the
  document with every repeated member dropped (\<open>first_wins\<close>), and that
  tree has the abstract value of the document read with the first member of
  each key.  The specification asks for insert-or-replace, the last member.
\<close>

theorem builder_first_wins:
  assumes "scalar_dups d"
  shows "build (events_of d) = Inr (Some (first_wins d)) \<and> absj (first_wins d) = absj d"
proof -
  obtain st where "feed (events_of d) init_state = Inr st" "root st = Some (first_wins d)"
    using feed_first_wins_init [OF assms] by blast
  then show ?thesis using absj_first_wins(1) [of d] by (simp add: build_def)
qed

theorem builder_first_wins_witness:
  "scalar_dups (JMap [(''k'', JInteger 1), (''k'', JInteger 2), (''j'', JArray [JNull])]) \<and>
   build (events_of (JMap [(''k'', JInteger 1), (''k'', JInteger 2), (''j'', JArray [JNull])])) =
     Inr (Some (JMap [(''k'', JInteger 1), (''j'', JArray [JNull])])) \<and>
   absj (JMap [(''k'', JInteger 1), (''j'', JArray [JNull])]) =
     absj (JMap [(''k'', JInteger 1), (''k'', JInteger 2), (''j'', JArray [JNull])])"
proof -
  have h: "scalar_dups (JMap [(''k'', JInteger 1), (''k'', JInteger 2), (''j'', JArray [JNull])])" by simp
  show ?thesis using h builder_first_wins [OF h] by simp
qed

end
