(* ===== verification/Main_Files.thy ===== *)
theory Main_Files
  imports Written_Text
begin

text \<open>
  \<open>main\<close> of \<open>src/program.cpp\<close> against the files it works on.  The world is a
  record of the file system (contents of the files that can be opened for
  reading, the paths that can be opened for writing), the standard input and
  output, and the messages written to the standard error.  \<open>rjson_run\<close> is
  \<open>main\<close> with its file operations in the order of the code: the usage text
  when an argument is missing, the input opened (\<open>"-"\<close> is the standard
  input) and read whole by the read loop, closed, the document parsed and
  built (\<open>rjson_main\<close>), and only then the output opened (\<open>argv[2]\<close>, or
  \<open>argv[1]\<close> when there is no second argument; \<open>"-"\<close> is the standard output),
  truncated and written.  \<open>room\<close> is how many bytes a path's device still
  takes (\<open>None\<close>: all of them); \<open>fwrite\<close> writes no more than that, and
  \<open>main\<close> checks neither its result nor \<open>fclose\<close>'s.  \<open>read_fail\<close> is
  the offset at which reading a path fails: \<open>fread\<close> then returns short and
  \<open>main\<close>, which never calls \<open>ferror\<close>, sees the end of its input
  (\<open>fread_all\<close>).  \<open>None\<close> is undefined
  behaviour.
\<close>

datatype err_msg = Perror "string option" | Parse_error string nat

text \<open>
  \<open>Perror s\<close>: \<open>perror\<close> called with \<open>s\<close> (\<open>None\<close> for a null pointer, which
  prints the error text without a file name).  \<open>Parse_error a n\<close>: the line
  \<open>"%s: %s"\<close> printed with \<open>argv[1] = a\<close> and the message \<open>yajl_get_error\<close>
  computes for \<open>jsonTextLength = n\<close>.
\<close>

record world =
  files :: "string \<Rightarrow> byte list option"
  writable :: "string \<Rightarrow> bool"
  stdin_data :: "byte list"
  stdout_data :: "byte list"
  stderr_msgs :: "err_msg list"
  room :: "string \<Rightarrow> nat option"
  read_fail :: "string \<Rightarrow> nat option"

definition usage_text :: "string \<Rightarrow> string" where
  "usage_text arg0 = ''Usage: '' @ arg0 @ '' <input> [output=input]'' @ [CHR 0x0A] @
     ''Input and output can be '' @ [CHR 0x22, CHR ''-'', CHR 0x22] @
     '' for stdin and stdout respectively'' @ [CHR 0x0A]"

definition open_read :: "world \<Rightarrow> string \<Rightarrow> byte list option" where
  "open_read w p = (if p = ''-'' then Some (stdin_data w) else files w p)"

definition fread_all :: "world \<Rightarrow> string \<Rightarrow> byte list \<Rightarrow> byte list" where
  "fread_all w p data = (case read_fail w p of None \<Rightarrow> data | Some n \<Rightarrow> take n data)"

definition open_write :: "world \<Rightarrow> string \<Rightarrow> bool" where
  "open_write w p \<longleftrightarrow> p = ''-'' \<or> writable w p"

definition write_output :: "world \<Rightarrow> string \<Rightarrow> byte list \<Rightarrow> world" where
  "write_output w p bs =
     (if p = ''-'' then w\<lparr>stdout_data := stdout_data w @ bs\<rparr>
      else w\<lparr>files := (files w)(p \<mapsto> (case room w p of None \<Rightarrow> bs | Some n \<Rightarrow> take n bs))\<rparr>)"

definition output_path :: "string list \<Rightarrow> string" where
  "output_path argv = (if length argv < 3 then argv ! 1 else argv ! 2)"

definition rjson_run ::
  "(byte list \<Rightarrow> json_data option) \<Rightarrow> (nat \<Rightarrow> nat \<Rightarrow> nat) \<Rightarrow> map_order \<Rightarrow> (f64 \<Rightarrow> string) \<Rightarrow>
     string list \<Rightarrow> world \<Rightarrow> (int \<times> world) option" where
  "rjson_run lexer grow ord dbl argv w =
     (if argv = [] then None
      else if length argv < 2 then
        Some (1, w\<lparr>stdout_data := stdout_data w @ text_bytes (usage_text (hd argv))\<rparr>)
      else (case open_read w (argv ! 1) of
              None \<Rightarrow> Some (1, w\<lparr>stderr_msgs := stderr_msgs w @ [Perror (Some (argv ! 1))]\<rparr>)
            | Some data \<Rightarrow>
                (let w1 = (if argv ! 1 = ''-'' then w\<lparr>stdin_data := []\<rparr> else w) in
                 case rjson_main lexer grow ord (length argv) True (open_write w1 (output_path argv))
                        (file_reads (fread_all w (argv ! 1) data)) of
                   MainExit c out \<Rightarrow> Some (c, write_output w1 (output_path argv) (text_bytes (render dbl out)))
                 | MainParseError n \<Rightarrow>
                     Some (1, w1\<lparr>stderr_msgs := stderr_msgs w1 @ [Parse_error (argv ! 1) n]\<rparr>)
                 | MainOpenError \<Rightarrow>
                     Some (1, w1\<lparr>stderr_msgs := stderr_msgs w1 @
                                 [Perror (if length argv < 3 then None else Some (argv ! 2))]\<rparr>)
                 | MainUsage \<Rightarrow> Some (1, w1)
                 | MainCrash \<Rightarrow> None)))"

lemma fread_all_None [simp]: "read_fail w p = None \<Longrightarrow> fread_all w p data = data"
  by (simp add: fread_all_def)

lemma main_file_ok:
  assumes "2 \<le> argc" "\<forall>s n. n \<le> grow s n" "lexer bs = Some d" "wf_json d"
  shows "rjson_main lexer grow ord argc True out_ok (file_reads bs) =
           (if out_ok then MainExit 0 (gen_out (snd (generate_json ord yajl_gen_alloc d))) else MainOpenError)"
proof -
  have cs: "\<forall>c \<in> set (file_reads bs). length c \<le> READ_BUFSIZE" "stream_text (file_reads bs) = bs"
    using file_reads_ok by blast+
  obtain rb where rb: "read_loop grow (file_reads bs) read_init = Some rb"
      "take (fullSize rb) (buf rb) = stream_text (file_reads bs)"
    using read_init_loop [OF cs(1) assms(2)] by blast
  obtain st where "parse_document rjson_flags lexer bs = Inr (Some st)" "root st = Some d"
    using parse_document_root [of lexer bs d, OF assms(3,4)] by blast
  then show ?thesis using assms(1) rb cs(2) by (simp add: rjson_main_def)
qed

lemma rjson_run_opened:
  assumes "argv = [a0, p]" "open_read w p = Some data" "\<forall>s n. n \<le> grow s n"
    "lexer (fread_all w p data) = Some d" "wf_json d"
  shows "rjson_run lexer grow ord dbl argv w =
           (let w1 = (if p = ''-'' then w\<lparr>stdin_data := []\<rparr> else w) in
            if open_write w1 p
            then Some (0, write_output w1 p (text_bytes (render dbl (gen_out (snd (generate_json ord yajl_gen_alloc d))))))
            else Some (1, w1\<lparr>stderr_msgs := stderr_msgs w1 @ [Perror None]\<rparr>))"
  using assms main_file_ok [of "length argv" grow lexer "fread_all w p data" d ord, OF _ assms(3-5)]
  by (simp add: rjson_run_def output_path_def Let_def One_nat_def split: main_result.splits)

lemma main_file_error:
  assumes "2 \<le> argc" "\<forall>s n. n \<le> grow s n" "lexer bs = None"
  shows "rjson_main lexer grow ord argc True out_ok (file_reads bs) = MainParseError (last_read (file_reads bs))"
proof -
  have cs: "\<forall>c \<in> set (file_reads bs). length c \<le> READ_BUFSIZE" "stream_text (file_reads bs) = bs"
    using file_reads_ok by blast+
  obtain rb where "read_loop grow (file_reads bs) read_init = Some rb"
      "take (fullSize rb) (buf rb) = stream_text (file_reads bs)" "readed rb = last_read (file_reads bs)"
    using read_init_loop [OF cs(1) assms(2)] by blast
  then show ?thesis using assms(1,3) cs(2) by (simp add: rjson_main_def parse_document_def)
qed

lemma rjson_run_rewrite:
  assumes "argv = [a0, p]" "p \<noteq> ''-''" "files w p = Some data" "writable w p"
    "\<forall>s n. n \<le> grow s n" "lexer (fread_all w p data) = Some d" "wf_json d" "room w p = None"
  shows "rjson_run lexer grow ord dbl argv w =
           Some (0, w\<lparr>files := (files w)(p \<mapsto> text_bytes (serialize_text dbl ord d))\<rparr>)"
proof -
  have "open_read w p = Some data" using assms(2,3) by (simp add: open_read_def)
  then show ?thesis
    using rjson_run_opened [of argv a0 p w data grow lexer d ord dbl, OF assms(1) _ assms(5-7)] assms(2,4,8)
    by (simp add: open_write_def write_output_def serialize_text_def)
qed

text \<open>
  C27.  In-place rewriting is safe: \<open>rjson file\<close> on a writable file holding a
  well-formed document below the generator's depth bound exits with status 0
  and leaves the world as it was except that the file now holds the pretty
  printing of its own former document.  The input is read whole and closed
  before the output is opened and truncated, so the text written is computed
  from the original contents.
\<close>

theorem rjson_run_in_place:
  assumes "argv = [a0, p]" "p \<noteq> ''-''" "files w p = Some data" "writable w p"
    "\<forall>s n. n \<le> grow s n" "lexer data = Some d" "wf_json d" "json_depth d < yajl_max_depth"
    "room w p = None" "read_fail w p = None"
  shows "rjson_run lexer grow ord dbl argv w =
           Some (0, w\<lparr>files := (files w)(p \<mapsto> text_bytes (pretty dbl 0 (reorder ord d) @ nl))\<rparr>)"
proof -
  have lx: "lexer (fread_all w p data) = Some d" using assms(6,10) by simp
  show ?thesis
    using rjson_run_rewrite [of argv a0 p w data grow lexer d ord dbl, OF assms(1-5) lx assms(7,9)]
      serialize_text_pretty_ok [OF assms(8), of dbl ord]
    by simp
qed

theorem rjson_run_in_place_witness:
  "[''rjson'', ''a.json''] = [''rjson'', ''a.json''] \<and> ''a.json'' \<noteq> ''-'' \<and>
   files \<lparr>files = [''a.json'' \<mapsto> text_bytes ''[]''], writable = (\<lambda>q. q = ''a.json''),
      stdin_data = [], stdout_data = [], stderr_msgs = [], room = (\<lambda>_. None), read_fail = (\<lambda>_. None)\<rparr> ''a.json'' = Some (text_bytes ''[]'') \<and>
   writable \<lparr>files = [''a.json'' \<mapsto> text_bytes ''[]''], writable = (\<lambda>q. q = ''a.json''),
      stdin_data = [], stdout_data = [], stderr_msgs = [], room = (\<lambda>_. None), read_fail = (\<lambda>_. None)\<rparr> ''a.json'' \<and>
   (\<forall>s n. n \<le> libstdcxx_grow s n) \<and> json_lexer (\<lambda>_. None) (text_bytes ''[]'') = Some (JArray []) \<and>
   wf_json (JArray []) \<and> json_depth (JArray []) < yajl_max_depth \<and>
   room \<lparr>files = [''a.json'' \<mapsto> text_bytes ''[]''], writable = (\<lambda>q. q = ''a.json''),
      stdin_data = [], stdout_data = [], stderr_msgs = [], room = (\<lambda>_. None), read_fail = (\<lambda>_. None)\<rparr> ''a.json'' = None \<and>
   rjson_run (json_lexer (\<lambda>_. None)) libstdcxx_grow insertion_order (\<lambda>_. ''0.0'') [''rjson'', ''a.json'']
     \<lparr>files = [''a.json'' \<mapsto> text_bytes ''[]''], writable = (\<lambda>q. q = ''a.json''),
      stdin_data = [], stdout_data = [], stderr_msgs = [], room = (\<lambda>_. None), read_fail = (\<lambda>_. None)\<rparr> =
   Some (0, \<lparr>files = [''a.json'' \<mapsto> text_bytes (''[]'' @ nl)], writable = (\<lambda>q. q = ''a.json''),
      stdin_data = [], stdout_data = [], stderr_msgs = [], room = (\<lambda>_. None), read_fail = (\<lambda>_. None)\<rparr>)"
proof -
  have h5: "\<forall>s n. n \<le> libstdcxx_grow s n" by (simp add: libstdcxx_grow_ge)
  have h6: "json_lexer (\<lambda>_. None) (text_bytes ''[]'') = Some (JArray [])"
    by (simp add: json_lexer_text_bytes read_json_text_def skip_ws.simps is_ws_def)
  have h8: "json_depth (JArray []) < yajl_max_depth" by (simp add: yajl_max_depth_def)
  show ?thesis
    using rjson_run_in_place [of "[''rjson'', ''a.json'']" "''rjson''" "''a.json''" "\<lparr>files = [''a.json'' \<mapsto> text_bytes ''[]''], writable = (\<lambda>q. q = ''a.json''),
      stdin_data = [], stdout_data = [], stderr_msgs = [], room = (\<lambda>_. None), read_fail = (\<lambda>_. None)\<rparr>"
        "text_bytes ''[]''" libstdcxx_grow "json_lexer (\<lambda>_. None)" "JArray []" insertion_order "\<lambda>_. ''0.0''",
        OF refl _ _ _ h5 h6 _ h8 _ _] h5 h6 h8
    by simp
qed

text \<open>
  C28.  A run that fails changes no file: whatever the arguments and the
  world, when \<open>main\<close> exits with a non-zero status (missing argument, input
  that cannot be opened, text the parser rejects, output that cannot be
  opened) every file holds what it held before.  In particular a rejected
  input rewritten in place is left intact, since the output is opened only
  after the parse succeeded.
\<close>

theorem rjson_run_error_keeps_files:
  assumes "rjson_run lexer grow ord dbl argv w = Some (c, w')" "c \<noteq> 0"
  shows "files w' = files w"
  using assms
  by (auto simp: rjson_run_def Let_def split: if_splits option.splits main_result.splits dest: main_exit_zero)

theorem rjson_run_error_keeps_files_witness:
  "rjson_run (json_lexer (\<lambda>_. None)) libstdcxx_grow insertion_order (\<lambda>_. ''0.0'') [''rjson'', ''a.json'']
     \<lparr>files = [''a.json'' \<mapsto> text_bytes ''[''], writable = (\<lambda>q. q = ''a.json''),
      stdin_data = [], stdout_data = [], stderr_msgs = [], room = (\<lambda>_. None), read_fail = (\<lambda>_. None)\<rparr> = Some (1, \<lparr>files = [''a.json'' \<mapsto> text_bytes ''[''], writable = (\<lambda>q. q = ''a.json''),
      stdin_data = [], stdout_data = [], stderr_msgs = [], room = (\<lambda>_. None), read_fail = (\<lambda>_. None)\<rparr>\<lparr>stderr_msgs := [Parse_error ''a.json'' (last_read (file_reads (text_bytes ''['')))]\<rparr>) \<and>
   (1::int) \<noteq> 0 \<and>
   files (\<lparr>files = [''a.json'' \<mapsto> text_bytes ''[''], writable = (\<lambda>q. q = ''a.json''),
      stdin_data = [], stdout_data = [], stderr_msgs = [], room = (\<lambda>_. None), read_fail = (\<lambda>_. None)\<rparr>\<lparr>stderr_msgs := [Parse_error ''a.json'' (last_read (file_reads (text_bytes ''['')))]\<rparr>) =
   files \<lparr>files = [''a.json'' \<mapsto> text_bytes ''[''], writable = (\<lambda>q. q = ''a.json''),
      stdin_data = [], stdout_data = [], stderr_msgs = [], room = (\<lambda>_. None), read_fail = (\<lambda>_. None)\<rparr>"
proof -
  have lx: "json_lexer (\<lambda>_. None) (text_bytes ''['') = None"
    by (simp add: json_lexer_text_bytes read_json_text_def skip_ws.simps is_ws_def)
  have h5: "\<forall>s n. n \<le> libstdcxx_grow s n" by (simp add: libstdcxx_grow_ge)
  have run: "rjson_run (json_lexer (\<lambda>_. None)) libstdcxx_grow insertion_order (\<lambda>_. ''0.0'') [''rjson'', ''a.json'']
     \<lparr>files = [''a.json'' \<mapsto> text_bytes ''[''], writable = (\<lambda>q. q = ''a.json''),
      stdin_data = [], stdout_data = [], stderr_msgs = [], room = (\<lambda>_. None), read_fail = (\<lambda>_. None)\<rparr> = Some (1, \<lparr>files = [''a.json'' \<mapsto> text_bytes ''[''], writable = (\<lambda>q. q = ''a.json''),
      stdin_data = [], stdout_data = [], stderr_msgs = [], room = (\<lambda>_. None), read_fail = (\<lambda>_. None)\<rparr>\<lparr>stderr_msgs := [Parse_error ''a.json'' (last_read (file_reads (text_bytes ''['')))]\<rparr>)"
    using main_file_error [of "length [''rjson'', ''a.json'']" libstdcxx_grow "json_lexer (\<lambda>_. None)"
        "text_bytes ''[''" insertion_order, OF _ h5 lx]
    by (simp add: rjson_run_def open_read_def One_nat_def)
  show ?thesis using rjson_run_error_keeps_files [OF run] run by simp
qed

text \<open>
  C29.  In-place rewriting loses data beyond the depth bound: for a
  well-formed document nested at least as deep as the generator's bound, \<open>rjson
  file\<close> still exits with status 0 and replaces the file's contents with the
  text of a strict prefix of the document's tokens, a truncated JSON text; the
  original document is gone.  (\<open>main\<close> ignores the status of
  \<open>generate_json\<close>.)
\<close>

theorem rjson_run_deep_in_place:
  assumes "argv = [a0, p]" "p \<noteq> ''-''" "files w p = Some data" "writable w p"
    "\<forall>s n. n \<le> grow s n" "lexer data = Some d" "wf_json d" "yajl_max_depth \<le> json_depth d"
    "room w p = None" "read_fail w p = None"
  shows "\<exists>out. rjson_run lexer grow ord dbl argv w =
                 Some (0, w\<lparr>files := (files w)(p \<mapsto> text_bytes (render dbl out))\<rparr>) \<and>
               strict_prefix out (events_of (reorder ord d))"
proof -
  have "open_read w p = Some data" using assms(2,3) by (simp add: open_read_def)
  then show ?thesis
    using rjson_run_opened [of argv a0 p w data grow lexer d ord dbl, OF assms(1) _ assms(5)] assms(2,4,6,7,9,10)
      generate_alloc_exceeded [OF assms(8), of ord]
    by (simp add: open_write_def write_output_def) blast
qed

theorem rjson_run_deep_in_place_witness:
  "[''rjson'', ''a.json''] = [''rjson'', ''a.json''] \<and> ''a.json'' \<noteq> ''-'' \<and>
   files (\<lparr>files = [''a.json'' \<mapsto> []], writable = (\<lambda>q. q = ''a.json''),
      stdin_data = [], stdout_data = [], stderr_msgs = [], room = (\<lambda>_. None), read_fail = (\<lambda>_. None)\<rparr>) ''a.json'' = Some [] \<and> writable (\<lparr>files = [''a.json'' \<mapsto> []], writable = (\<lambda>q. q = ''a.json''),
      stdin_data = [], stdout_data = [], stderr_msgs = [], room = (\<lambda>_. None), read_fail = (\<lambda>_. None)\<rparr>) ''a.json'' \<and>
   (\<forall>s n. n \<le> libstdcxx_grow s n) \<and> (\<lambda>_. Some (nest 999)) ([] :: byte list) = Some (nest 999) \<and>
   wf_json (nest 999) \<and> yajl_max_depth \<le> json_depth (nest 999) \<and>
   room (\<lparr>files = [''a.json'' \<mapsto> []], writable = (\<lambda>q. q = ''a.json''),
      stdin_data = [], stdout_data = [], stderr_msgs = [], room = (\<lambda>_. None), read_fail = (\<lambda>_. None)\<rparr>) ''a.json'' = None \<and>
   (\<exists>out. rjson_run (\<lambda>_. Some (nest 999)) libstdcxx_grow insertion_order (\<lambda>_. ''0.0'') [''rjson'', ''a.json'']
             (\<lparr>files = [''a.json'' \<mapsto> []], writable = (\<lambda>q. q = ''a.json''),
      stdin_data = [], stdout_data = [], stderr_msgs = [], room = (\<lambda>_. None), read_fail = (\<lambda>_. None)\<rparr>) = Some (0, (\<lparr>files = [''a.json'' \<mapsto> []], writable = (\<lambda>q. q = ''a.json''),
      stdin_data = [], stdout_data = [], stderr_msgs = [], room = (\<lambda>_. None), read_fail = (\<lambda>_. None)\<rparr>)\<lparr>files := (files (\<lparr>files = [''a.json'' \<mapsto> []], writable = (\<lambda>q. q = ''a.json''),
      stdin_data = [], stdout_data = [], stderr_msgs = [], room = (\<lambda>_. None), read_fail = (\<lambda>_. None)\<rparr>))(''a.json'' \<mapsto> text_bytes (render (\<lambda>_. ''0.0'') out))\<rparr>) \<and>
           strict_prefix out (events_of (reorder insertion_order (nest 999))))"
proof -
  have h5: "\<forall>s n. n \<le> libstdcxx_grow s n" by (simp add: libstdcxx_grow_ge)
  have h8: "yajl_max_depth \<le> json_depth (nest 999)" by (simp add: yajl_max_depth_def json_depth_nest)
  show ?thesis
    using rjson_run_deep_in_place [of "[''rjson'', ''a.json'']" "''rjson''" "''a.json''" "\<lparr>files = [''a.json'' \<mapsto> []], writable = (\<lambda>q. q = ''a.json''),
      stdin_data = [], stdout_data = [], stderr_msgs = [], room = (\<lambda>_. None), read_fail = (\<lambda>_. None)\<rparr>" "[]" libstdcxx_grow
        "\<lambda>_. Some (nest 999)" "nest 999" insertion_order "\<lambda>_. ''0.0''", OF refl _ _ _ h5 _ wf_nest h8 _ _] h5 h8 wf_nest
    by simp
qed

text \<open>
  C30.  An output that cannot be opened is reported without its name when
  the input is rewritten in place: with one argument naming a file that can
  be read but not written, \<open>main\<close> exits with status 1, changes nothing, and
  prints \<open>perror(argv[2])\<close> with \<open>argv[2]\<close> the null pointer that ends
  \<open>argv\<close>, so the message names no file.
\<close>

theorem rjson_run_output_error:
  assumes "argv = [a0, p]" "p \<noteq> ''-''" "files w p = Some data" "\<not> writable w p"
    "\<forall>s n. n \<le> grow s n" "lexer data = Some d" "wf_json d" "read_fail w p = None"
  shows "rjson_run lexer grow ord dbl argv w = Some (1, w\<lparr>stderr_msgs := stderr_msgs w @ [Perror None]\<rparr>)"
proof -
  have "open_read w p = Some data" using assms(2,3) by (simp add: open_read_def)
  then show ?thesis
    using rjson_run_opened [of argv a0 p w data grow lexer d ord dbl, OF assms(1) _ assms(5)] assms(2,4,6-8)
    by (simp add: open_write_def)
qed

theorem rjson_run_output_error_witness:
  "[''rjson'', ''a.json''] = [''rjson'', ''a.json''] \<and> ''a.json'' \<noteq> ''-'' \<and>
   files (\<lparr>files = [''a.json'' \<mapsto> text_bytes ''[]''], writable = (\<lambda>q. False),
      stdin_data = [], stdout_data = [], stderr_msgs = [], room = (\<lambda>_. None), read_fail = (\<lambda>_. None)\<rparr>) ''a.json'' = Some (text_bytes ''[]'') \<and> \<not> writable (\<lparr>files = [''a.json'' \<mapsto> text_bytes ''[]''], writable = (\<lambda>q. False),
      stdin_data = [], stdout_data = [], stderr_msgs = [], room = (\<lambda>_. None), read_fail = (\<lambda>_. None)\<rparr>) ''a.json'' \<and>
   (\<forall>s n. n \<le> libstdcxx_grow s n) \<and> json_lexer (\<lambda>_. None) (text_bytes ''[]'') = Some (JArray []) \<and>
   wf_json (JArray []) \<and>
   rjson_run (json_lexer (\<lambda>_. None)) libstdcxx_grow insertion_order (\<lambda>_. ''0.0'') [''rjson'', ''a.json''] (\<lparr>files = [''a.json'' \<mapsto> text_bytes ''[]''], writable = (\<lambda>q. False),
      stdin_data = [], stdout_data = [], stderr_msgs = [], room = (\<lambda>_. None), read_fail = (\<lambda>_. None)\<rparr>) =
     Some (1, (\<lparr>files = [''a.json'' \<mapsto> text_bytes ''[]''], writable = (\<lambda>q. False),
      stdin_data = [], stdout_data = [], stderr_msgs = [], room = (\<lambda>_. None), read_fail = (\<lambda>_. None)\<rparr>)\<lparr>stderr_msgs := [Perror None]\<rparr>)"
proof -
  have h5: "\<forall>s n. n \<le> libstdcxx_grow s n" by (simp add: libstdcxx_grow_ge)
  have h6: "json_lexer (\<lambda>_. None) (text_bytes ''[]'') = Some (JArray [])"
    by (simp add: json_lexer_text_bytes read_json_text_def skip_ws.simps is_ws_def)
  show ?thesis
    using rjson_run_output_error [of "[''rjson'', ''a.json'']" "''rjson''" "''a.json''" "\<lparr>files = [''a.json'' \<mapsto> text_bytes ''[]''], writable = (\<lambda>q. False),
      stdin_data = [], stdout_data = [], stderr_msgs = [], room = (\<lambda>_. None), read_fail = (\<lambda>_. None)\<rparr>"
        "text_bytes ''[]''" libstdcxx_grow "json_lexer (\<lambda>_. None)" "JArray []" insertion_order "\<lambda>_. ''0.0''",
        OF refl _ _ _ h5 h6 _ _] h5 h6
    by simp
qed

text \<open>
  C31.  With \<open>-\<close> as its argument \<open>main\<close> is a filter: it reads the whole
  standard input, writes the pretty printing of its document to the standard
  output, exits with status 0, and touches no file.
\<close>

theorem rjson_run_stdio:
  assumes "argv = [a0, ''-'']" "\<forall>s n. n \<le> grow s n" "lexer (stdin_data w) = Some d" "wf_json d"
    "json_depth d < yajl_max_depth" "read_fail w ''-'' = None"
  shows "rjson_run lexer grow ord dbl argv w =
           Some (0, w\<lparr>stdin_data := [], stdout_data := stdout_data w @ text_bytes (pretty dbl 0 (reorder ord d) @ nl)\<rparr>)"
  using rjson_run_opened [of argv a0 "''-''" w "stdin_data w" grow lexer d ord dbl, OF assms(1) _ assms(2)]
    assms(3,4,6) generate_alloc_ok [OF assms(5)]
  by (simp add: open_read_def open_write_def write_output_def render_events_of)

theorem rjson_run_stdio_witness:
  "[''rjson'', ''-''] = [''rjson'', ''-''] \<and> (\<forall>s n. n \<le> libstdcxx_grow s n) \<and>
   json_lexer (\<lambda>_. None) (stdin_data (\<lparr>files = Map.empty, writable = (\<lambda>q. False),
      stdin_data = text_bytes ''[]'', stdout_data = [], stderr_msgs = [], room = (\<lambda>_. None), read_fail = (\<lambda>_. None)\<rparr>)) = Some (JArray []) \<and>
   wf_json (JArray []) \<and> json_depth (JArray []) < yajl_max_depth \<and>
   rjson_run (json_lexer (\<lambda>_. None)) libstdcxx_grow insertion_order (\<lambda>_. ''0.0'') [''rjson'', ''-''] (\<lparr>files = Map.empty, writable = (\<lambda>q. False),
      stdin_data = text_bytes ''[]'', stdout_data = [], stderr_msgs = [], room = (\<lambda>_. None), read_fail = (\<lambda>_. None)\<rparr>) =
     Some (0, (\<lparr>files = Map.empty, writable = (\<lambda>q. False),
      stdin_data = text_bytes ''[]'', stdout_data = [], stderr_msgs = [], room = (\<lambda>_. None), read_fail = (\<lambda>_. None)\<rparr>)\<lparr>stdin_data := [], stdout_data := text_bytes (''[]'' @ nl)\<rparr>)"
proof -
  have h2: "\<forall>s n. n \<le> libstdcxx_grow s n" by (simp add: libstdcxx_grow_ge)
  have h3: "json_lexer (\<lambda>_. None) (stdin_data (\<lparr>files = Map.empty, writable = (\<lambda>q. False),
      stdin_data = text_bytes ''[]'', stdout_data = [], stderr_msgs = [], room = (\<lambda>_. None), read_fail = (\<lambda>_. None)\<rparr>)) = Some (JArray [])"
    by (simp add: json_lexer_text_bytes read_json_text_def skip_ws.simps is_ws_def)
  have h5: "json_depth (JArray []) < yajl_max_depth" by (simp add: yajl_max_depth_def)
  show ?thesis
    using rjson_run_stdio [of "[''rjson'', ''-'']" "''rjson''" libstdcxx_grow "json_lexer (\<lambda>_. None)" "\<lparr>files = Map.empty, writable = (\<lambda>q. False),
      stdin_data = text_bytes ''[]'', stdout_data = [], stderr_msgs = [], room = (\<lambda>_. None), read_fail = (\<lambda>_. None)\<rparr>"
        "JArray []" insertion_order "\<lambda>_. ''0.0''", OF refl h2 h3 _ h5 _] h2 h3 h5
    by simp
qed

text \<open>
  C35.  A short write is not reported: \<open>main\<close> ignores what \<open>fwrite\<close> and
  \<open>fclose\<close> return, so when the device takes only \<open>n\<close> bytes of the text
  (a full disk, a quota), an in-place rewrite exits with status 0 and leaves
  the first \<open>n\<close> bytes of the text in place of the document.
\<close>

theorem rjson_run_short_write:
  assumes "argv = [a0, p]" "p \<noteq> ''-''" "files w p = Some data" "writable w p"
    "\<forall>s n. n \<le> grow s n" "lexer data = Some d" "wf_json d" "json_depth d < yajl_max_depth"
    "room w p = Some n" "n < length (pretty dbl 0 (reorder ord d) @ nl)" "read_fail w p = None"
  shows "rjson_run lexer grow ord dbl argv w =
           Some (0, w\<lparr>files := (files w)(p \<mapsto> take n (text_bytes (pretty dbl 0 (reorder ord d) @ nl)))\<rparr>) \<and>
         take n (text_bytes (pretty dbl 0 (reorder ord d) @ nl)) \<noteq> text_bytes (pretty dbl 0 (reorder ord d) @ nl)"
proof -
  have "open_read w p = Some data" using assms(2,3) by (simp add: open_read_def)
  then have "rjson_run lexer grow ord dbl argv w =
           Some (0, w\<lparr>files := (files w)(p \<mapsto> take n (text_bytes (pretty dbl 0 (reorder ord d) @ nl)))\<rparr>)"
    using rjson_run_opened [of argv a0 p w data grow lexer d ord dbl, OF assms(1) _ assms(5)] assms(2,4,6,7,9,11)
      generate_alloc_ok [OF assms(8)]
    by (simp add: open_write_def write_output_def render_events_of)
  moreover have "length (take n (text_bytes (pretty dbl 0 (reorder ord d) @ nl))) <
                 length (text_bytes (pretty dbl 0 (reorder ord d) @ nl))"
    using assms(10) by (simp add: text_bytes_def)
  ultimately show ?thesis by auto
qed

theorem rjson_run_short_write_witness:
  "[''rjson'', ''a.json''] = [''rjson'', ''a.json''] \<and> ''a.json'' \<noteq> ''-'' \<and>
   files (\<lparr>files = [''a.json'' \<mapsto> text_bytes ''[]''], writable = (\<lambda>q. q = ''a.json''),
      stdin_data = [], stdout_data = [], stderr_msgs = [], room = (\<lambda>_. Some 1), read_fail = (\<lambda>_. None)\<rparr>) ''a.json'' = Some (text_bytes ''[]'') \<and> writable (\<lparr>files = [''a.json'' \<mapsto> text_bytes ''[]''], writable = (\<lambda>q. q = ''a.json''),
      stdin_data = [], stdout_data = [], stderr_msgs = [], room = (\<lambda>_. Some 1), read_fail = (\<lambda>_. None)\<rparr>) ''a.json'' \<and>
   (\<forall>s n. n \<le> libstdcxx_grow s n) \<and> json_lexer (\<lambda>_. None) (text_bytes ''[]'') = Some (JArray []) \<and>
   wf_json (JArray []) \<and> json_depth (JArray []) < yajl_max_depth \<and>
   room (\<lparr>files = [''a.json'' \<mapsto> text_bytes ''[]''], writable = (\<lambda>q. q = ''a.json''),
      stdin_data = [], stdout_data = [], stderr_msgs = [], room = (\<lambda>_. Some 1), read_fail = (\<lambda>_. None)\<rparr>) ''a.json'' = Some 1 \<and> 1 < length (pretty (\<lambda>_. ''0.0'') 0 (reorder insertion_order (JArray [])) @ nl) \<and>
   rjson_run (json_lexer (\<lambda>_. None)) libstdcxx_grow insertion_order (\<lambda>_. ''0.0'') [''rjson'', ''a.json''] (\<lparr>files = [''a.json'' \<mapsto> text_bytes ''[]''], writable = (\<lambda>q. q = ''a.json''),
      stdin_data = [], stdout_data = [], stderr_msgs = [], room = (\<lambda>_. Some 1), read_fail = (\<lambda>_. None)\<rparr>) =
     Some (0, (\<lparr>files = [''a.json'' \<mapsto> text_bytes ''[]''], writable = (\<lambda>q. q = ''a.json''),
      stdin_data = [], stdout_data = [], stderr_msgs = [], room = (\<lambda>_. Some 1), read_fail = (\<lambda>_. None)\<rparr>)\<lparr>files := [''a.json'' \<mapsto> text_bytes ''['']\<rparr>)"
proof -
  have h5: "\<forall>s n. n \<le> libstdcxx_grow s n" by (simp add: libstdcxx_grow_ge)
  have h6: "json_lexer (\<lambda>_. None) (text_bytes ''[]'') = Some (JArray [])"
    by (simp add: json_lexer_text_bytes read_json_text_def skip_ws.simps is_ws_def)
  have h8: "json_depth (JArray []) < yajl_max_depth" by (simp add: yajl_max_depth_def)
  have h10: "1 < length (pretty (\<lambda>_. ''0.0'') 0 (reorder insertion_order (JArray [])) @ nl)"
    by (simp add: nl_def)
  show ?thesis
    using rjson_run_short_write [of "[''rjson'', ''a.json'']" "''rjson''" "''a.json''" "\<lparr>files = [''a.json'' \<mapsto> text_bytes ''[]''], writable = (\<lambda>q. q = ''a.json''),
      stdin_data = [], stdout_data = [], stderr_msgs = [], room = (\<lambda>_. Some 1), read_fail = (\<lambda>_. None)\<rparr>"
        "text_bytes ''[]''" libstdcxx_grow "json_lexer (\<lambda>_. None)" "JArray []" 1 "\<lambda>_. ''0.0''" insertion_order,
        OF refl _ _ _ h5 h6 _ h8 _ h10 _] h5 h6 h8 h10
    by (simp add: text_bytes_def nl_def)
qed

text \<open>
  C16.  A read error is taken for the end of the input: \<open>main\<close> never calls
  \<open>ferror\<close>, and a failing \<open>fread\<close> returns short, which ends the read loop
  like the end of the file.  When reading a file fails after \<open>k\<close> bytes and
  those bytes happen to form a document (a number cut short, say), an
  in-place rewrite exits with status 0 and replaces the file with the text of
  that truncated document.
\<close>

theorem rjson_run_read_error:
  assumes "argv = [a0, p]" "p \<noteq> ''-''" "files w p = Some data" "writable w p" "room w p = None"
    "read_fail w p = Some k" "\<forall>s n. n \<le> grow s n" "lexer (take k data) = Some d" "wf_json d"
    "json_depth d < yajl_max_depth"
  shows "rjson_run lexer grow ord dbl argv w =
           Some (0, w\<lparr>files := (files w)(p \<mapsto> text_bytes (pretty dbl 0 (reorder ord d) @ nl))\<rparr>)"
proof -
  have lx: "lexer (fread_all w p data) = Some d" using assms(6,8) by (simp add: fread_all_def)
  show ?thesis
    using rjson_run_rewrite [of argv a0 p w data grow lexer d ord dbl, OF assms(1-4,7) lx assms(9,5)]
      serialize_text_pretty_ok [OF assms(10), of dbl ord]
    by simp
qed

theorem rjson_run_read_error_witness:
  "[''rjson'', ''a.json''] = [''rjson'', ''a.json''] \<and> ''a.json'' \<noteq> ''-'' \<and>
   files (\<lparr>files = [''a.json'' \<mapsto> text_bytes ''12''], writable = (\<lambda>q. q = ''a.json''),
      stdin_data = [], stdout_data = [], stderr_msgs = [], room = (\<lambda>_. None), read_fail = (\<lambda>_. Some 1)\<rparr>) ''a.json'' = Some (text_bytes ''12'') \<and> writable (\<lparr>files = [''a.json'' \<mapsto> text_bytes ''12''], writable = (\<lambda>q. q = ''a.json''),
      stdin_data = [], stdout_data = [], stderr_msgs = [], room = (\<lambda>_. None), read_fail = (\<lambda>_. Some 1)\<rparr>) ''a.json'' \<and> room (\<lparr>files = [''a.json'' \<mapsto> text_bytes ''12''], writable = (\<lambda>q. q = ''a.json''),
      stdin_data = [], stdout_data = [], stderr_msgs = [], room = (\<lambda>_. None), read_fail = (\<lambda>_. Some 1)\<rparr>) ''a.json'' = None \<and>
   read_fail (\<lparr>files = [''a.json'' \<mapsto> text_bytes ''12''], writable = (\<lambda>q. q = ''a.json''),
      stdin_data = [], stdout_data = [], stderr_msgs = [], room = (\<lambda>_. None), read_fail = (\<lambda>_. Some 1)\<rparr>) ''a.json'' = Some 1 \<and> (\<forall>s n. n \<le> libstdcxx_grow s n) \<and>
   json_lexer (\<lambda>_. None) (take 1 (text_bytes ''12'')) = Some (JInteger 1) \<and>
   wf_json (JInteger 1) \<and> json_depth (JInteger 1) < yajl_max_depth \<and>
   rjson_run (json_lexer (\<lambda>_. None)) libstdcxx_grow insertion_order (\<lambda>_. ''0.0'') [''rjson'', ''a.json''] (\<lparr>files = [''a.json'' \<mapsto> text_bytes ''12''], writable = (\<lambda>q. q = ''a.json''),
      stdin_data = [], stdout_data = [], stderr_msgs = [], room = (\<lambda>_. None), read_fail = (\<lambda>_. Some 1)\<rparr>) =
     Some (0, (\<lparr>files = [''a.json'' \<mapsto> text_bytes ''12''], writable = (\<lambda>q. q = ''a.json''),
      stdin_data = [], stdout_data = [], stderr_msgs = [], room = (\<lambda>_. None), read_fail = (\<lambda>_. Some 1)\<rparr>)\<lparr>files := [''a.json'' \<mapsto> text_bytes (''1'' @ nl)]\<rparr>)"
proof -
  have h7: "\<forall>s n. n \<le> libstdcxx_grow s n" by (simp add: libstdcxx_grow_ge)
  have t: "take 1 (text_bytes ''12'') = text_bytes ''1''" by (simp add: text_bytes_def)
  have h8: "json_lexer (\<lambda>_. None) (take 1 (text_bytes ''12'')) = Some (JInteger 1)"
    unfolding t
    by (simp add: json_lexer_text_bytes read_json_text_def skip_ws.simps is_ws_def parse_number_def
        is_num_char_def is_digit_def parse_int64_def parse_int_text_def parse_nat_text_def)
  have h10: "json_depth (JInteger 1) < yajl_max_depth" by (simp add: yajl_max_depth_def)
  have one: "integer_text 1 = ''1''"
    by (simp add: integer_text_def int_text_def dec_digits.simps digit_char_def)
  show ?thesis
    using rjson_run_read_error [of "[''rjson'', ''a.json'']" "''rjson''" "''a.json''" "\<lparr>files = [''a.json'' \<mapsto> text_bytes ''12''], writable = (\<lambda>q. q = ''a.json''),
      stdin_data = [], stdout_data = [], stderr_msgs = [], room = (\<lambda>_. None), read_fail = (\<lambda>_. Some 1)\<rparr>"
        "text_bytes ''12''" 1 libstdcxx_grow "json_lexer (\<lambda>_. None)" "JInteger 1" insertion_order "\<lambda>_. ''0.0''",
        OF refl _ _ _ _ _ h7 h8 _ h10] h7 h8 h10 one
    by simp
qed

end
