(* ===== verification/Spec2Isabelle.thy ===== *)
theory Spec2Isabelle
  imports Written_Text Builder_Dups Main_Files
begin

text \<open>
  \<^bold>\<open>A verification model of rjson (\<open>src/program.cpp\<close>).\<close>

  rjson reads a JSON document, builds a tree of it, and writes the tree back
  pretty-printed.  The program has three parts that matter, all in
  \<open>src/program.cpp\<close>:
  \<^item> the value model, \<open>enum json_type\<close> and the tagged union \<open>struct json_data\<close>;
  \<^item> the incremental builder, \<open>struct json_data_state\<close> with its \<open>insert\<close>
    template and the ten callbacks of the \<open>yajl_callbacks reader_cb\<close> table in
    \<open>main\<close>, driven event by event by the yajl parser;
  \<^item> the recursive serializer \<open>generate_json\<close>, which walks the finished tree
    and calls the yajl generator's primitives.
  Around them, \<open>main\<close> reads the input file into a growing buffer, runs the
  parser, and writes the generator's buffer.  The yajl parser and generator
  (\<open>JSonParser/\<close>) are not part of the sources; the model takes the parser to
  be a source of structural events and the generator to be a sink of output
  primitives, as the specification describes them.

  \<^bold>\<open>Theories.\<close>
  \<^item> \<open>Prelude\<close>: the widths of the data (\<open>int64\<close> = \<open>64 word\<close>, a double as its
    64-bit pattern, \<open>bytes\<close> = \<open>string\<close>) and shared association-list facts.
  \<^item> \<open>Json_Value\<close>: \<open>json_type\<close>, \<open>json_data\<close> (one constructor per union
    member), the constructor \<open>json_data(json_type)\<close> as \<open>json_data_of_type\<close>,
    the tag as \<open>type_of\<close>, nesting depth and well-formedness (distinct map keys).
    A raw \<open>json_data*\<close> into the tree is modelled as a path from the root
    (\<open>get_at\<close> reads through it, \<open>upd_at\<close> writes through it): the program's
    containers are node-stable, so a pointer names one fixed position.  The
    lemmas are the algebra of paths: reading after writing, writing twice,
    prefixes, and well-formedness under writes.
  \<^item> \<open>Events\<close>: the interface between the components, the structural events
    (\<open>yajl_event\<close>, one per callback of the table) and \<open>events_of\<close>, the
    stream of a document in document order.  The parser produces such streams,
    the builder consumes them, the generator's output is one.
  \<^item> \<open>Builder\<close>: the record \<open>json_data_state\<close> (\<open>stack\<close>, \<open>tempKey\<close>,
    \<open>root\<close>), \<open>insert\<close> as \<open>insert_json\<close> (with \<open>std::unordered_map::emplace\<close>
    as \<open>emplace\<close>), one definition per callback (\<open>reader_null\<close> \<dots>
    \<open>reader_end_array\<close>), the table \<open>reader_cb\<close>, the parser's driving loop
    \<open>feed\<close> (stops at the first callback that returns 0), the initial state and
    \<open>build\<close> (run the callbacks, take \<open>state.root\<close>).  A callback returning 0 is
    \<open>Inl ClientCanceled\<close>; what C++ leaves undefined (pop of an empty
    \<open>std::stack\<close>, a read through a dangling pointer) is \<open>Inl UndefinedBehaviour\<close>.
  \<^item> \<open>Builder_Dups\<close>: the builder on documents with repeated keys:
    \<open>first_wins\<close> (drop later repeated members), \<open>scalar_dups\<close> (repeated
    members are scalars), and the run of the callbacks on such documents
    (\<open>feed_events_dups\<close>, the induction of \<open>feed_events\<close> with the keys
    already in the map as a parameter).
  \<^item> \<open>Yajl_Gen\<close>: the yajl generator as the specification describes it (its
    sources are outside the repository): a record with the stack of open
    containers, a completion flag, the output written so far (as the token
    stream a parser reads back) and the depth bound; one definition per
    primitive \<open>generate_json\<close> calls, each returning a \<open>yajl_gen_status\<close> and
    leaving the state unchanged when it refuses.  The bound is a field set by
    \<open>yajl_gen_alloc\<close> to 128, the \<open>YAJL_MAX_DEPTH\<close> of the bundled yajl; the
    serializer lemmas are stated for any bound.
  \<^item> \<open>Map_Order\<close>: the enumeration order of \<open>std::unordered_map\<close>, which
    the program does not control: a parameter \<open>ord\<close> that gives, from a map's
    key list, the positions of its members in enumeration order;
    \<open>enum_members ord\<close> lists a map in that order (any permutation, insertion
    order when \<open>ord\<close> does not give one) and \<open>reorder ord\<close> applies it at
    every map of a tree.  Depth and well-formedness do not see the order.
  \<^item> \<open>Serializer\<close>: \<open>generate_json ord\<close> with its two loops (\<open>generate_members\<close>,
    \<open>generate_elems\<close>), returning the first status that is not ok; the map
    loop walks \<open>enum_members ord\<close>, so the function's termination rests on
    that being a permutation.  \<open>generate_tree\<close> is the reference walk in
    stored order and \<open>generate_json_reorder\<close> proves the program's walk equal
    to the reference walk of \<open>reorder ord v\<close>.
  \<^item> \<open>Json_Abstract\<close>: the abstract value of the specification, an Object a
    finite map (\<open>fmap\<close>) from keys to values, and the abstraction \<open>absj\<close>;
    \<open>absj_reorder\<close>: the enumeration order is invisible in it.
  \<^item> \<open>Read_Loop\<close>: the input loop of \<open>main\<close> over a record of the vector (contents,
    capacity), \<open>fullSize\<close> and \<open>readed\<close>; \<open>std::vector::resize\<close> with the
    capacity policy as a parameter (libstdc++'s as an instance); the stream as
    the list of \<open>fread\<close> results.  A read that could write past the vector is
    \<open>None\<close>.  \<open>read_loop\<close> is structural recursion over a finite list of
    reads; \<open>read_loop_from\<close> is the same loop over an unbounded source (the
    \<open>i\<close>-th read as a function of \<open>i\<close>), a \<open>partial_function\<close> in the option
    monad since it need not return.  Up to the first short read the two agree
    (\<open>read_loop_from_list\<close>), so the finite model loses nothing.
  \<^item> \<open>Pipeline\<close>: \<open>main\<close> as \<open>rjson_main\<close>: argument count, input and output
    opened or not, read loop, parse with the builder's callbacks (the text's
    document is given by a parameter \<open>lexer\<close>, the yajl parser being outside the
    sources), \<open>generate_json\<close> on the root, and what is written.  The handle's
    options are the record \<open>yajl_flags\<close>, set by \<open>yajl_config\<close>; \<open>main\<close>'s
    handle is \<open>rjson_flags\<close> (comments allowed, line 325), and
    \<open>parse_document\<close> rejects a comment when they are off.
  \<^item> \<open>Yajl_Text\<close>: the text the generator puts in its buffer (\<open>main\<close> turns on
    \<open>yajl_gen_beautify\<close>, line 365), modelled from the specification's
    rendering contract: \<open>integer_text\<close> (\<open>%lld\<close>), \<open>string_text\<close> with
    \<open>escape_char\<close> (JSON escaping), and the streaming layout \<open>render\<close>, which
    prints the token stream with a layout state (depth, first item, after a
    key) and four spaces per level.  The double printer is a parameter.  Next
    to the printers stand reference readers for integers and string literals
    and the recursive pretty printer \<open>pretty\<close> of the tree.
  \<^item> \<open>Json_Reader\<close>: the JSON grammar the yajl parser accepts, as a reader of
    text into a tree (\<open>read_json_text\<close>, recursive descent on fuel one more
    than the text's length), with the double reader as a parameter.  Between
    tokens it skips whitespace and, since \<open>main\<close> sets
    \<open>yajl_allow_comments\<close> (line 325), comments (\<open>skip_ws\<close>, \<open>drop_block\<close>):
    \<open>/* ... */\<close> and \<open>// ...\<close> to the end of the line.  The fuel is enough:
    a parse that succeeds with some fuel consumes at least as many characters
    as it needs fuel (\<open>parse_fuel\<close>, with \<open>parse_shorter\<close>), so any fuel above
    the text's length gives the same answer (\<open>parse_value_fuel_enough\<close>).
  \<^item> \<open>Written_Text\<close>: \<open>serialize_text\<close>, the text \<open>main\<close> writes for a root
    (lines 363-371: a fresh beautified generator, \<open>generate_json\<close>, the
    generator's buffer), \<open>text_bytes\<close> (what \<open>fwrite\<close> puts in the file),
    \<open>json_lexer\<close> (the parser reading a byte buffer as text),
    \<open>file_reads\<close> (how \<open>fread\<close> returns a regular file), and the rendering
    contract stated on them.
  \<^item> \<open>Main_Files\<close>: \<open>main\<close> against its files.  The record \<open>world\<close> holds
    the files that can be read, the paths that can be written, the standard
    input and output, the messages on the standard error (\<open>err_msg\<close>) and
    the room left on each path's device and the offset where reading a path
    fails (\<open>fread_all\<close>: a failing \<open>fread\<close> returns short);
    \<open>rjson_run\<close> is \<open>main\<close> with its file operations in code order:
    \<open>usage_text\<close> on a missing argument, the input opened (\<open>open_read\<close>,
    \<open>"-"\<close> the standard input, line 237), read whole and closed, the
    document built and generated by \<open>rjson_main\<close>, and only then the output
    chosen (\<open>output_path\<close>, line 356), opened (\<open>open_write\<close>, line 357),
    truncated and written (\<open>write_output\<close>, line 371).

  \<^bold>\<open>What is proved.\<close>
  \<^item> Builder round trip (C1): the event stream of every well-formed document
    builds exactly that document.  The proof runs the stream from an arbitrary
    state whose top container accepts a new child (\<open>feed_events\<close>, mutual
    induction over a value, its members and its elements).
  \<^item> Builder invariant (C2) by rule induction over \<open>builder_reachable\<close>:
    the stack is a chain of parent positions from the root, every pointer on it
    points into the tree, every map has distinct keys.  From it, memory safety
    (C3): the only undefined behaviour a run reaches is a pop of the empty stack.
  \<^item> Behaviour on malformed or unusual streams, where the code departs from the
    specification (C4 to C8), each stated for every state or every document:
    duplicate keys keep the first value (C4); an array under a duplicate key
    whose first value is an array has its elements appended to the old array
    (C5); exchanging end-of-map and end-of-array events anywhere in a stream
    changes nothing (C6); every non-empty prefix of a document's stream builds
    a tree (C7); a second top-level value cancels the parse (C8).  C34 (type):
    once the root exists no callback changes its type, from any state.
  \<^item> Serializer (C9, C10), for every enumeration order: below the depth bound
    every primitive succeeds and the output is the token stream of the document
    with its maps in enumeration order; at or beyond it \<open>generate_json\<close>
    returns \<open>yajl_max_depth_exceeded\<close>.  The proofs are again one mutual
    induction each (\<open>generate_ok\<close>, \<open>generate_exceeded\<close>), sharing the
    early-return lemma \<open>early_return\<close>.
  \<^item> Across components (C11): serializing and feeding the output back to
    the builder gives the document back with its maps in enumeration order,
    so with the same abstract value whatever the order (with \<open>absj_reorder\<close>).
  \<^item> \<open>main\<close> (C12 to C15): end to end, a well-formed document below the depth
    bound is written back with exit status 0; beyond the bound the status of
    \<open>generate_json\<close> is ignored and a truncated prefix is written with status 0;
    the read loop never writes outside the vector and collects the whole input
    (C14, for any capacity policy that honours the requested size); a rejected
    input reports its error with the last read's length instead of the input's;
    duplicate keys end to end keep the first value (\<open>rjson_main_duplicate_keys\<close>).
  \<^item> Text (C17 to C20): every \<open>int64\<close>, the two boundaries included, prints as
    a decimal text that reads back to the same word (C17), with a sign exactly
    when negative and no leading zero (C18); every byte string prints as a
    quoted literal that reads back to itself and ends at its closing quote
    (C19); the streaming layout of a document is its recursive pretty printing
    (C20, by the same mutual induction over value, members and elements), and
    end to end the bytes \<open>main\<close> writes are that pretty printing
    (\<open>rjson_main_written_text\<close>).
  \<^item> Reading back (C22, C23): the JSON reader gives back every document from
    the text the serializer writes for it (a mutual induction over value,
    members and elements, \<open>parse_pretty\<close>), for any double printer that
    prints a number token its reader inverts; and \<open>main\<close>, run on the file it
    wrote, writes a text that reads as the same abstract document (C23).  The
    bytes may differ, since the second run's maps are filled in the first run's
    enumeration order and may enumerate differently.
  \<^item> Repeated keys against the abstract value (C24, C25): when repeated keys
    carry scalars the builder builds \<open>first_wins\<close> of the document, and
    \<open>main\<close>'s output reads as the abstract document with the first member of
    each key (the specification asks for the last).
  \<^item> Files (C27 to C31): rewriting a file in place (one argument) replaces
    it with the pretty printing of its own document and changes nothing else
    (C27); every run that exits with a non-zero status leaves every file as it
    was, since the output is opened only after the parse (C28); beyond the
    depth bound an in-place rewrite exits with status 0 and leaves a truncated
    text in place of the document (C29); an unwritable file rewritten in place
    is reported by \<open>perror(argv[2])\<close> with a null pointer (C30); \<open>rjson -\<close>
    is a filter from the standard input to the standard output (C31); two
    in-place runs in a row leave a file that reads as the original abstract
    document (C33, the file-level form of C23); a short write is not
    reported, so on a full device an in-place rewrite exits with status 0
    and leaves a prefix of the text in place of the document (C35); a read
    error is taken for the end of the file, so a file that fails to read
    part-way may be replaced, with status 0, by the conversion of its readable
    prefix (C16).
  \<^item> Termination and progress (C32, C21): the read loop over an unbounded
    source returns exactly when some read is short; a source of full reads
    keeps it running forever (\<open>read_loop_from_full\<close>, by the fixed-point
    induction of the \<open>partial_function\<close>).  When the first short read is the
    \<open>k\<close>-th, the loop returns after exactly \<open>k + 1\<close> reads holding everything
    read, in order, with \<open>readed\<close> the last read's length (C21).
  \<^item> Comments (C26): \<open>main\<close> turns on \<open>yajl_allow_comments\<close> (line 325,
    \<open>rjson_flags\<close>), so a block or line comment before a document \<open>main\<close>
    converts leaves the output unchanged, whereas with the flags of a fresh
    handle the commented text is a parse error (\<open>probable_comment\<close>); the
    proof rests on the fuel lemma, since the commented text gets more fuel.

  The reader model skips comments with the same \<open>skip_ws\<close> at every token
  boundary, so comments are modelled wherever whitespace may stand; the
  theorems state their effect only before the document (C26).

  \<^bold>\<open>Not modelled.\<close>  The byte-level lexer of yajl (outside the sources; the
  parser is a source of events, \<open>lexer\<close> the grammar with comments allowed;
  only the comment option of \<open>yajl_config\<close> changes what it accepts, the
  other options staying off as \<open>main\<close> leaves them), the digits of the double printer (a
  parameter), file and stream I/O beyond opening, reading (whole or cut short) and writing
  as much as the device takes (write errors other than a full device, a
  standard output that refuses bytes, permissions other than the ability to
  open a path for writing, the Windows \<open>_setmode\<close> call of line 234), and the hash
  function and bucket layout of \<open>std::unordered_map\<close>, of which only the
  resulting enumeration order is kept (as the parameter \<open>ord\<close>).  The
  reference reader \<open>parse_int64\<close> accepts the whole \<open>int64_t\<close> range, as the
  specification's boundary requirement asks; yajl 2's \<open>yajl_parse_integer\<close>
  reports \<open>-9223372036854775808\<close> as an integer overflow, which the model does
  not follow.  The generator's refusal of NaN and infinite doubles
  (\<open>yajl_gen_invalid_number\<close>) is not modelled: the parser never delivers one
  (an out-of-range number is a parse error), so \<open>main\<close> never passes one on.
\<close>

section \<open>Properties across components\<close>

text \<open>
  C11.  Structural round trip of the whole core: serializing a well-formed
  document whose depth is below the generator's bound, then feeding the token
  stream the generator wrote to the builder's callbacks, yields the document
  with each map's members in the order the map enumerated them.
\<close>

theorem serialize_build_roundtrip:
  assumes "wf_json v" "json_depth v < yajl_max_depth"
  shows "build (gen_out (snd (generate_json ord yajl_gen_alloc v))) = Inr (Some (reorder ord v))"
proof -
  obtain st where "feed (events_of (reorder ord v)) init_state = Inr st" "root st = Some (reorder ord v)"
    using feed_events_init [OF reorder_wf(1) [OF assms(1)]] by blast
  then show ?thesis using generate_alloc_ok [OF assms(2)] by (simp add: build_def)
qed

theorem serialize_build_roundtrip_witness:
  "wf_json (JMap [(''a'', JInteger 1), (''b'', JArray [JBoolean True, JNull, JString ''x''])]) \<and>
   json_depth (JMap [(''a'', JInteger 1), (''b'', JArray [JBoolean True, JNull, JString ''x''])]) < yajl_max_depth \<and>
   build (gen_out (snd (generate_json (\<lambda>ks. rev [0..<length ks]) yajl_gen_alloc
     (JMap [(''a'', JInteger 1), (''b'', JArray [JBoolean True, JNull, JString ''x''])])))) =
     Inr (Some (JMap [(''b'', JArray [JBoolean True, JNull, JString ''x'']), (''a'', JInteger 1)]))"
proof -
  have h1: "wf_json (JMap [(''a'', JInteger 1), (''b'', JArray [JBoolean True, JNull, JString ''x''])])"
    by simp
  have h2: "json_depth (JMap [(''a'', JInteger 1), (''b'', JArray [JBoolean True, JNull, JString ''x''])]) < yajl_max_depth"
    by (simp add: yajl_max_depth_def)
  show ?thesis
    using h1 h2 serialize_build_roundtrip [OF h1 h2, of "\<lambda>ks. rev [0..<length ks]"]
    by (simp add: enum_members_def)
qed

text \<open>
  What \<open>main\<close> writes: for a readable input whose text the parser accepts
  as a well-formed document of depth below the generator's bound, \<open>main\<close>
  exits with status 0 and the bytes it writes with \<open>fwrite\<close> are the
  beautified pretty printing of that document, its maps in enumeration
  order, followed by a line break.
\<close>

theorem rjson_main_written_text:
  assumes "2 \<le> argc" "\<forall>c \<in> set cs. length c \<le> READ_BUFSIZE" "\<forall>s n. n \<le> grow s n"
    "lexer (stream_text cs) = Some d" "wf_json d" "json_depth d < yajl_max_depth"
  shows "\<exists>out. rjson_main lexer grow ord argc True True cs = MainExit 0 out \<and>
           render dbl out = pretty dbl 0 (reorder ord d) @ nl"
  using main_to_generate [of argc cs grow lexer d ord, OF assms(1-5)] generate_alloc_ok [OF assms(6)]
  by (simp add: render_events_of)

theorem rjson_main_written_text_witness:
  "2 \<le> (2::nat) \<and> length [91, 93 :: byte] \<le> READ_BUFSIZE \<and>
   (\<forall>s n. n \<le> libstdcxx_grow s n) \<and>
   (\<lambda>_. Some (JArray [])) (stream_text [[91, 93]]) = Some (JArray []) \<and>
   wf_json (JArray []) \<and> json_depth (JArray []) < yajl_max_depth \<and>
   (\<exists>out. rjson_main (\<lambda>_. Some (JArray [])) libstdcxx_grow insertion_order 2 True True [[91, 93]] =
      MainExit 0 out \<and> render (\<lambda>_. ''0.0'') out = ''[]'' @ nl)"
proof -
  have h2: "\<forall>c \<in> set [[91, 93 :: byte]]. length c \<le> READ_BUFSIZE" by (simp add: READ_BUFSIZE_def)
  have h3: "\<forall>s n. n \<le> libstdcxx_grow s n" by (simp add: libstdcxx_grow_ge)
  have h6: "json_depth (JArray []) < yajl_max_depth" by (simp add: yajl_max_depth_def)
  show ?thesis
    using h2 h3 h6 rjson_main_written_text [of 2 "[[91, 93]]" libstdcxx_grow
      "\<lambda>_. Some (JArray [])" "JArray []" insertion_order "\<lambda>_. ''0.0''", OF _ h2 h3 _ _ h6]
    by simp
qed

text \<open>
  C23.  rjson reproduces its own output up to member order: run on a file
  holding what it wrote for a well-formed document below the depth bound (read
  back in \<open>fread\<close> chunks, parsed with the JSON grammar), \<open>main\<close> exits with
  status 0 and what it writes reads as the same abstract document as the
  original.  The text itself may differ: the second run inserts the members
  in the first run's enumeration order, and the map may enumerate them
  differently.
\<close>

theorem rjson_main_reads_own_output:
  assumes "dbl_ok dbl rd" "wf_json d" "json_depth d < yajl_max_depth" "2 \<le> argc"
    "\<forall>s n. n \<le> grow s n"
  shows "\<exists>out d'. rjson_main (json_lexer rd) grow ord argc True True
                   (file_reads (text_bytes (serialize_text dbl ord d))) = MainExit 0 out \<and>
                 read_json_text rd (render dbl out) = Some d' \<and> absj d' = absj d"
proof -
  let ?d1 = "reorder ord d"
  let ?cs = "file_reads (text_bytes (serialize_text dbl ord d))"
  have wf1: "wf_json ?d1" using reorder_wf(1) [OF assms(2)] .
  have dp1: "json_depth ?d1 < yajl_max_depth" using assms(3) by (simp add: reorder_depth)
  have cs: "\<forall>c \<in> set ?cs. length c \<le> READ_BUFSIZE" "stream_text ?cs = text_bytes (serialize_text dbl ord d)"
    using file_reads_ok by blast+
  have lex: "json_lexer rd (stream_text ?cs) = Some ?d1"
    using cs(2) serialize_text_pretty_ok [OF assms(3)] read_pretty [OF assms(1)]
    by (simp add: json_lexer_text_bytes)
  have main: "rjson_main (json_lexer rd) grow ord argc True True ?cs = MainExit 0 (events_of (reorder ord ?d1))"
    using main_to_generate [of argc ?cs grow "json_lexer rd" ?d1 ord, OF assms(4) cs(1) assms(5) lex wf1]
      generate_alloc_ok [OF dp1] by simp
  have "read_json_text rd (render dbl (events_of (reorder ord ?d1))) = Some (reorder ord ?d1)"
    using read_pretty [OF assms(1)] by (simp add: render_events_of)
  moreover have "absj (reorder ord ?d1) = absj d"
    using absj_reorder(1) [OF wf1] absj_reorder(1) [OF assms(2)] by simp
  ultimately show ?thesis using main by blast
qed

theorem rjson_main_reads_own_output_witness:
  "dbl_ok (\<lambda>r. dec_digits (unat r) @ ''.0'') (\<lambda>t. map_option of_nat (parse_nat_text (butlast (butlast t)))) \<and>
   wf_json (JMap [(''a'', JInteger 1), (''b'', JNull)]) \<and>
   json_depth (JMap [(''a'', JInteger 1), (''b'', JNull)]) < yajl_max_depth \<and> 2 \<le> (2::nat) \<and>
   (\<forall>s n. n \<le> libstdcxx_grow s n) \<and>
   (\<exists>out d'. rjson_main (json_lexer (\<lambda>t. map_option of_nat (parse_nat_text (butlast (butlast t)))))
            libstdcxx_grow (\<lambda>ks. rev [0..<length ks]) 2 True True
            (file_reads (text_bytes (serialize_text (\<lambda>r. dec_digits (unat r) @ ''.0'')
               (\<lambda>ks. rev [0..<length ks]) (JMap [(''a'', JInteger 1), (''b'', JNull)]))))
          = MainExit 0 out \<and>
          read_json_text (\<lambda>t. map_option of_nat (parse_nat_text (butlast (butlast t))))
            (render (\<lambda>r. dec_digits (unat r) @ ''.0'') out) = Some d' \<and>
          absj d' = absj (JMap [(''a'', JInteger 1), (''b'', JNull)]))"
proof -
  have h1: "dbl_ok (\<lambda>r. dec_digits (unat r) @ ''.0'') (\<lambda>t. map_option of_nat (parse_nat_text (butlast (butlast t))))"
    using dec_digits_all_digit by (auto simp: dbl_ok_def list_all_iff is_num_char_def is_digit_def butlast_append)
  have h2: "wf_json (JMap [(''a'', JInteger 1), (''b'', JNull)])" by simp
  have h3: "json_depth (JMap [(''a'', JInteger 1), (''b'', JNull)]) < yajl_max_depth"
    by (simp add: yajl_max_depth_def)
  have h5: "\<forall>s n. n \<le> libstdcxx_grow s n" by (simp add: libstdcxx_grow_ge)
  show ?thesis
    using h1 h2 h3 h5 rjson_main_reads_own_output [OF h1 h2 h3 _ h5, of 2 "\<lambda>ks. rev [0..<length ks]"]
    by simp
qed

lemma main_first_wins:
  assumes "2 \<le> argc" "\<forall>c \<in> set cs. length c \<le> READ_BUFSIZE" "\<forall>s n. n \<le> grow s n"
    "lexer (stream_text cs) = Some d" "scalar_dups d"
  shows "rjson_main lexer grow ord argc True True cs =
           MainExit 0 (gen_out (snd (generate_json ord yajl_gen_alloc (first_wins d))))"
proof -
  obtain st where "feed (events_of d) init_state = Inr st" "root st = Some (first_wins d)"
    using feed_first_wins_init [OF assms(5)] by blast
  then have "parse_document rjson_flags lexer (stream_text cs) = Inr (Some st)"
    using assms(4) by (simp add: parse_document_def)
  then show ?thesis by (rule main_parsed [OF assms(1-3) _ \<open>root st = Some (first_wins d)\<close>])
qed

text \<open>
  C25.  End to end on repeated keys: for an input whose document repeats keys
  only with scalar values, \<open>main\<close> exits with status 0 and its output reads as
  the abstract document with the first member of each key, whatever the
  enumeration order.  (For \<open>{"k":1,"k":2}\<close> that is \<open>{"k":1}\<close>; the
  specification expects the last member.)
\<close>

theorem rjson_main_first_wins:
  assumes "2 \<le> argc" "\<forall>c \<in> set cs. length c \<le> READ_BUFSIZE" "\<forall>s n. n \<le> grow s n"
    "lexer (stream_text cs) = Some d" "scalar_dups d" "json_depth d < yajl_max_depth" "dbl_ok dbl rd"
  shows "\<exists>out d'. rjson_main lexer grow ord argc True True cs = MainExit 0 out \<and>
                 read_json_text rd (render dbl out) = Some d' \<and> absj d' = absj d"
proof -
  have dp: "json_depth (first_wins d) < yajl_max_depth"
    using first_wins_depth(1) [of d] assms(6) by simp
  have main: "rjson_main lexer grow ord argc True True cs = MainExit 0 (events_of (reorder ord (first_wins d)))"
    using main_first_wins [of argc cs grow lexer d ord, OF assms(1-5)] generate_alloc_ok [OF dp] by simp
  have "read_json_text rd (render dbl (events_of (reorder ord (first_wins d)))) = Some (reorder ord (first_wins d))"
    using read_pretty [OF assms(7)] by (simp add: render_events_of)
  moreover have "absj (reorder ord (first_wins d)) = absj d"
    using absj_reorder(1) [OF wf_first_wins(1)] absj_first_wins(1) by simp
  ultimately show ?thesis using main by blast
qed

theorem rjson_main_first_wins_witness:
  "2 \<le> (2::nat) \<and> length ([] :: byte list) \<le> READ_BUFSIZE \<and>
   (\<forall>s n. n \<le> libstdcxx_grow s n) \<and>
   (\<lambda>_. Some (JMap [(''k'', JInteger 1), (''k'', JInteger 2)])) (stream_text [[]]) =
     Some (JMap [(''k'', JInteger 1), (''k'', JInteger 2)]) \<and>
   scalar_dups (JMap [(''k'', JInteger 1), (''k'', JInteger 2)]) \<and>
   json_depth (JMap [(''k'', JInteger 1), (''k'', JInteger 2)]) < yajl_max_depth \<and>
   dbl_ok (\<lambda>r. dec_digits (unat r) @ ''.0'') (\<lambda>t. map_option of_nat (parse_nat_text (butlast (butlast t)))) \<and>
   (\<exists>out d'. rjson_main (\<lambda>_. Some (JMap [(''k'', JInteger 1), (''k'', JInteger 2)])) libstdcxx_grow
        insertion_order 2 True True [[]] = MainExit 0 out \<and>
      read_json_text (\<lambda>t. map_option of_nat (parse_nat_text (butlast (butlast t))))
        (render (\<lambda>r. dec_digits (unat r) @ ''.0'') out) = Some d' \<and>
      absj d' = absj (JMap [(''k'', JInteger 1), (''k'', JInteger 2)]))"
proof -
  have h2: "\<forall>c \<in> set [[] :: byte list]. length c \<le> READ_BUFSIZE" by simp
  have h3: "\<forall>s n. n \<le> libstdcxx_grow s n" by (simp add: libstdcxx_grow_ge)
  have h5: "scalar_dups (JMap [(''k'', JInteger 1), (''k'', JInteger 2)])" by simp
  have h6: "json_depth (JMap [(''k'', JInteger 1), (''k'', JInteger 2)]) < yajl_max_depth"
    by (simp add: yajl_max_depth_def)
  have h7: "dbl_ok (\<lambda>r. dec_digits (unat r) @ ''.0'') (\<lambda>t. map_option of_nat (parse_nat_text (butlast (butlast t))))"
    using dec_digits_all_digit by (auto simp: dbl_ok_def list_all_iff is_num_char_def is_digit_def butlast_append)
  show ?thesis
    using h2 h3 h5 h6 h7 rjson_main_first_wins [of 2 "[[]]" libstdcxx_grow
      "\<lambda>_. Some (JMap [(''k'', JInteger 1), (''k'', JInteger 2)])" "JMap [(''k'', JInteger 1), (''k'', JInteger 2)]"
      "\<lambda>r. dec_digits (unat r) @ ''.0''" "\<lambda>t. map_option of_nat (parse_nat_text (butlast (butlast t)))" insertion_order,
      OF _ h2 h3 _ h5 h6 h7]
    by simp
qed


text \<open>
  C26.  Comments (\<open>yajl_allow_comments\<close>, set by \<open>main\<close> at line 325): an
  input that starts with a block comment \<open>/* ... */\<close> or a line comment
  \<open>// ...\<close> ending in a line break, before a text \<open>main\<close> converts, is
  converted to the same output: the comment is accepted and dropped.  Without
  the \<open>yajl_config\<close> call the same input would be a parse error: with the
  flags of a fresh handle the parse of the commented text fails.
\<close>

theorem rjson_main_skips_comments:
  assumes "\<not> sublist ''*/'' c" "CHR 0x0A \<notin> set c'" "\<forall>s n. n \<le> grow s n"
    "rjson_main (json_lexer rd) grow ord argc True True (file_reads (text_bytes t)) = MainExit 0 out"
  shows "rjson_main (json_lexer rd) grow ord argc True True
           (file_reads (text_bytes (''/*'' @ c @ ''*/'' @ t))) = MainExit 0 out \<and>
         rjson_main (json_lexer rd) grow ord argc True True
           (file_reads (text_bytes (''//'' @ c' @ CHR 0x0A # t))) = MainExit 0 out \<and>
         parse_document yajl_alloc_flags (json_lexer rd) (text_bytes (''/*'' @ c @ ''*/'' @ t)) = Inr None"
proof -
  have lex: "json_lexer rd (stream_text (file_reads (text_bytes u))) = read_json_text rd u" for u
    using file_reads_ok [of "text_bytes u"] by (simp add: json_lexer_text_bytes)
  have bnd: "\<forall>x \<in> set (file_reads bs). length x \<le> READ_BUFSIZE" for bs
    using file_reads_ok by blast
  have "read_json_text rd ((''/*'' @ c @ ''*/'') @ t) = read_json_text rd t"
    by (rule read_json_text_skip_prefix) (use skip_ws_block_comment [OF assms(1)] in simp)
  moreover have "read_json_text rd ((''//'' @ c' @ [CHR 0x0A]) @ t) = read_json_text rd t"
    by (rule read_json_text_skip_prefix) (use skip_ws_line_comment [OF assms(2)] in simp)
  moreover have "parse_document yajl_alloc_flags (json_lexer rd) (text_bytes (''/*'' @ c @ ''*/'' @ t)) = Inr None"
    by (simp add: parse_document_def yajl_alloc_flags_def text_bytes_def)
  ultimately show ?thesis
    using main_lexer_cong [OF bnd bnd assms(3) _ assms(4)] lex by simp
qed

theorem rjson_main_skips_comments_witness:
  "\<not> sublist ''*/'' '' x '' \<and> CHR 0x0A \<notin> set '' y'' \<and> (\<forall>s n. n \<le> libstdcxx_grow s n) \<and>
   rjson_main (json_lexer (\<lambda>_. None)) libstdcxx_grow insertion_order 2 True True
     (file_reads (text_bytes ''[]'')) = MainExit 0 [EvStartArray, EvEndArray] \<and>
   rjson_main (json_lexer (\<lambda>_. None)) libstdcxx_grow insertion_order 2 True True
     (file_reads (text_bytes (''/*'' @ '' x '' @ ''*/'' @ ''[]''))) = MainExit 0 [EvStartArray, EvEndArray] \<and>
   rjson_main (json_lexer (\<lambda>_. None)) libstdcxx_grow insertion_order 2 True True
     (file_reads (text_bytes (''//'' @ '' y'' @ CHR 0x0A # ''[]''))) = MainExit 0 [EvStartArray, EvEndArray] \<and>
   parse_document yajl_alloc_flags (json_lexer (\<lambda>_. None)) (text_bytes (''/*'' @ '' x '' @ ''*/'' @ ''[]'')) = Inr None"
proof -
  have h1: "\<not> sublist ''*/'' '' x ''" by (simp add: sublist_Cons_right)
  have h2: "CHR 0x0A \<notin> set '' y''" by simp
  have h3: "\<forall>s n. n \<le> libstdcxx_grow s n" by (simp add: libstdcxx_grow_ge)
  have lex: "json_lexer (\<lambda>_. None) (stream_text (file_reads (text_bytes ''[]''))) = Some (JArray [])"
    using file_reads_ok [of "text_bytes ''[]''"]
    by (simp add: json_lexer_text_bytes read_json_text_def skip_ws.simps is_ws_def)
  have h4: "rjson_main (json_lexer (\<lambda>_. None)) libstdcxx_grow insertion_order 2 True True
              (file_reads (text_bytes ''[]'')) = MainExit 0 [EvStartArray, EvEndArray]"
    using main_to_generate [of 2 "file_reads (text_bytes ''[]'')" libstdcxx_grow "json_lexer (\<lambda>_. None)"
        "JArray []" insertion_order] file_reads_ok h3 lex
      generate_alloc_ok [of "JArray []" insertion_order]
    by (simp add: yajl_max_depth_def)
  show ?thesis using h1 h2 h3 h4 rjson_main_skips_comments [OF h1 h2 h3 h4] by simp
qed

text \<open>
  C33.  Rewriting a file in place twice: two successive runs of \<open>rjson file\<close>
  on a well-formed document below the depth bound both exit with status 0,
  change no other file, and leave a text that reads as the same abstract
  document as the original.  The second run reads the first run's output, so
  its maps are filled in the first run's enumeration order; the bytes may
  differ, the abstract document does not.
\<close>

theorem rjson_run_twice_in_place:
  assumes "argv = [a0, p]" "p \<noteq> ''-''" "files w p = Some data" "writable w p"
    "\<forall>s n. n \<le> grow s n" "json_lexer rd data = Some d" "wf_json d" "json_depth d < yajl_max_depth"
    "dbl_ok dbl rd" "room w p = None" "read_fail w p = None"
  shows "\<exists>w1 bs d'. rjson_run (json_lexer rd) grow ord dbl argv w = Some (0, w1) \<and>
           rjson_run (json_lexer rd) grow ord dbl argv w1 = Some (0, w\<lparr>files := (files w)(p \<mapsto> bs)\<rparr>) \<and>
           json_lexer rd bs = Some d' \<and> absj d' = absj d"
proof -
  let ?d1 = "reorder ord d" and ?d2 = "reorder ord (reorder ord d)"
  let ?bs1 = "text_bytes (serialize_text dbl ord d)" and ?bs2 = "text_bytes (serialize_text dbl ord ?d1)"
  let ?w1 = "w\<lparr>files := (files w)(p \<mapsto> ?bs1)\<rparr>"
  have wf1: "wf_json ?d1" using reorder_wf(1) [OF assms(7)] .
  have dp1: "json_depth ?d1 < yajl_max_depth" using assms(8) by (simp add: reorder_depth)
  have lex1: "json_lexer rd ?bs1 = Some ?d1"
    using serialize_text_pretty_ok [OF assms(8)] read_pretty [OF assms(9)] by (simp add: json_lexer_text_bytes)
  have lex2: "json_lexer rd ?bs2 = Some ?d2"
    using serialize_text_pretty_ok [OF dp1] read_pretty [OF assms(9)] by (simp add: json_lexer_text_bytes)
  have run1: "rjson_run (json_lexer rd) grow ord dbl argv w = Some (0, ?w1)"
    by (rule rjson_run_rewrite [of argv a0 p w data grow "json_lexer rd" d ord dbl, OF assms(1-5) _ assms(7,10)])
       (use assms(6,11) in simp)
  have "rjson_run (json_lexer rd) grow ord dbl argv ?w1 = Some (0, ?w1\<lparr>files := (files ?w1)(p \<mapsto> ?bs2)\<rparr>)"
    by (rule rjson_run_rewrite [of argv a0 p ?w1 ?bs1 grow "json_lexer rd" ?d1 ord dbl, OF assms(1,2) _ _ assms(5) _ wf1])
       (use assms(4,10,11) lex1 in simp_all)
  then have run2: "rjson_run (json_lexer rd) grow ord dbl argv ?w1 = Some (0, w\<lparr>files := (files w)(p \<mapsto> ?bs2)\<rparr>)"
    by simp
  have "absj ?d2 = absj d"
    using absj_reorder(1) [OF wf1] absj_reorder(1) [OF assms(7)] by simp
  then show ?thesis using run1 run2 lex2 by blast
qed

theorem rjson_run_twice_in_place_witness:
  "[''rjson'', ''a.json''] = [''rjson'', ''a.json''] \<and> ''a.json'' \<noteq> ''-'' \<and>
   files (\<lparr>files = [''a.json'' \<mapsto> text_bytes ''[1,null]''], writable = (\<lambda>q. q = ''a.json''),
      stdin_data = [], stdout_data = [], stderr_msgs = [], room = (\<lambda>_. None), read_fail = (\<lambda>_. None)\<rparr>) ''a.json'' = Some (text_bytes ''[1,null]'') \<and> writable (\<lparr>files = [''a.json'' \<mapsto> text_bytes ''[1,null]''], writable = (\<lambda>q. q = ''a.json''),
      stdin_data = [], stdout_data = [], stderr_msgs = [], room = (\<lambda>_. None), read_fail = (\<lambda>_. None)\<rparr>) ''a.json'' \<and>
   (\<forall>s n. n \<le> libstdcxx_grow s n) \<and>
   json_lexer (\<lambda>t. map_option of_nat (parse_nat_text (butlast (butlast t)))) (text_bytes ''[1,null]'') = Some (JArray [JInteger 1, JNull]) \<and>
   wf_json (JArray [JInteger 1, JNull]) \<and>
   json_depth (JArray [JInteger 1, JNull]) < yajl_max_depth \<and> dbl_ok (\<lambda>r. dec_digits (unat r) @ ''.0'') (\<lambda>t. map_option of_nat (parse_nat_text (butlast (butlast t)))) \<and>
   room (\<lparr>files = [''a.json'' \<mapsto> text_bytes ''[1,null]''], writable = (\<lambda>q. q = ''a.json''),
      stdin_data = [], stdout_data = [], stderr_msgs = [], room = (\<lambda>_. None), read_fail = (\<lambda>_. None)\<rparr>) ''a.json'' = None \<and>
   (\<exists>w1 bs d'. rjson_run (json_lexer (\<lambda>t. map_option of_nat (parse_nat_text (butlast (butlast t))))) libstdcxx_grow (\<lambda>ks. rev [0..<length ks]) (\<lambda>r. dec_digits (unat r) @ ''.0'') [''rjson'', ''a.json''] (\<lparr>files = [''a.json'' \<mapsto> text_bytes ''[1,null]''], writable = (\<lambda>q. q = ''a.json''),
      stdin_data = [], stdout_data = [], stderr_msgs = [], room = (\<lambda>_. None), read_fail = (\<lambda>_. None)\<rparr>)
        = Some (0, w1) \<and>
      rjson_run (json_lexer (\<lambda>t. map_option of_nat (parse_nat_text (butlast (butlast t))))) libstdcxx_grow (\<lambda>ks. rev [0..<length ks]) (\<lambda>r. dec_digits (unat r) @ ''.0'') [''rjson'', ''a.json''] w1 =
        Some (0, (\<lparr>files = [''a.json'' \<mapsto> text_bytes ''[1,null]''], writable = (\<lambda>q. q = ''a.json''),
      stdin_data = [], stdout_data = [], stderr_msgs = [], room = (\<lambda>_. None), read_fail = (\<lambda>_. None)\<rparr>)\<lparr>files := (files (\<lparr>files = [''a.json'' \<mapsto> text_bytes ''[1,null]''], writable = (\<lambda>q. q = ''a.json''),
      stdin_data = [], stdout_data = [], stderr_msgs = [], room = (\<lambda>_. None), read_fail = (\<lambda>_. None)\<rparr>))(''a.json'' \<mapsto> bs)\<rparr>) \<and>
      json_lexer (\<lambda>t. map_option of_nat (parse_nat_text (butlast (butlast t)))) bs = Some d' \<and> absj d' = absj (JArray [JInteger 1, JNull]))"
proof -
  have h5: "\<forall>s n. n \<le> libstdcxx_grow s n" by (simp add: libstdcxx_grow_ge)
  have h6: "json_lexer (\<lambda>t. map_option of_nat (parse_nat_text (butlast (butlast t)))) (text_bytes ''[1,null]'') = Some (JArray [JInteger 1, JNull])"
    by (simp add: json_lexer_text_bytes read_json_text_def skip_ws.simps is_ws_def parse_number_def
        is_num_char_def is_digit_def parse_int64_def parse_int_text_def parse_nat_text_def)
  have h8: "json_depth (JArray [JInteger 1, JNull]) < yajl_max_depth" by (simp add: yajl_max_depth_def)
  have h9: "dbl_ok (\<lambda>r. dec_digits (unat r) @ ''.0'') (\<lambda>t. map_option of_nat (parse_nat_text (butlast (butlast t))))"
    using dec_digits_all_digit by (auto simp: dbl_ok_def list_all_iff is_num_char_def is_digit_def butlast_append)
  show ?thesis
    using rjson_run_twice_in_place [of "[''rjson'', ''a.json'']" "''rjson''" "''a.json''" "\<lparr>files = [''a.json'' \<mapsto> text_bytes ''[1,null]''], writable = (\<lambda>q. q = ''a.json''),
      stdin_data = [], stdout_data = [], stderr_msgs = [], room = (\<lambda>_. None), read_fail = (\<lambda>_. None)\<rparr>"
        "text_bytes ''[1,null]''" libstdcxx_grow "\<lambda>t. map_option of_nat (parse_nat_text (butlast (butlast t)))" "JArray [JInteger 1, JNull]" "\<lambda>r. dec_digits (unat r) @ ''.0''"
        "\<lambda>ks. rev [0..<length ks]", OF refl _ _ _ h5 h6 _ h8 h9 _ _] h5 h6 h8 h9
    by simp
qed

end
